theory Spec2Isabelle
  imports Complex_Main "HOL-Library.Word"
begin

unbundle bit_operations_syntax

chapter \<open>The model\<close>

section \<open>JavaScript values\<close>

text \<open>
  The numbers that the modelled functions compute with hold integers (tick indices, tick
  spacings, array start indices, lamport amounts, retry counters).  Their magnitudes stay
  below \<open>2^53\<close>, where double arithmetic on integers is exact, so they are modelled as
  \<open>int\<close>; \<open>BigInt\<close> values are \<open>int\<close> as well, with the bitwise operations of
  two's complement.  Two operators do not agree with HOL's \<open>div\<close> and \<open>mod\<close> and are
  written out:
  \<^item> \<open>Math.floor(a / b)\<close> is the floor of the real quotient;
  \<^item> \<open>a % b\<close> is the remainder of the truncating division and carries the sign of \<open>a\<close>.
  A thrown exception is the left summand of the result.
\<close>

datatype js_error = TypeError | RangeError | AssertionError | Error string

definition math_floor_div :: "int \<Rightarrow> int \<Rightarrow> int" where
  "math_floor_div a b = \<lfloor>real_of_int a / real_of_int b\<rfloor>"

definition js_rem :: "int \<Rightarrow> int \<Rightarrow> int" where
  "js_rem a b = sgn a * (\<bar>a\<bar> mod \<bar>b\<bar>)"

text \<open>\<open>x << n\<close> and \<open>x >> n\<close> on \<open>BigInt\<close>: a negative count shifts the other way.\<close>

definition bigint_shl :: "int \<Rightarrow> int \<Rightarrow> int" where
  "bigint_shl x n = (if 0 \<le> n then push_bit (nat n) x else drop_bit (nat (- n)) x)"

definition bigint_shr :: "int \<Rightarrow> int \<Rightarrow> int" where
  "bigint_shr x n = (if 0 \<le> n then drop_bit (nat n) x else push_bit (nat (- n)) x)"

text \<open>
  \<open>x.toString(2).length\<close>: the number of binary digits, one for zero, and one more for the
  sign of a negative number.
\<close>

function bit_length :: "int \<Rightarrow> int" where
  "bit_length x = (if x \<le> 0 then 0 else 1 + bit_length (x div 2))"
  by pat_completeness auto
termination
  by (relation "measure nat") auto

declare bit_length.simps [simp del]

definition binary_digits :: "int \<Rightarrow> int" where
  "binary_digits x =
     (if x = 0 then 1
      else if x < 0 then 1 + bit_length (- x)
      else bit_length x)"

text \<open>\<open>xs[i]\<close>: \<open>undefined\<close> outside the array.\<close>

definition js_index :: "'a list \<Rightarrow> int \<Rightarrow> 'a option" where
  "js_index xs i = (if 0 \<le> i \<and> i < int (length xs) then Some (xs ! nat i) else None)"


section \<open>Tick-array bitmap arithmetic\<close>

definition MIN_TICK :: int where
  "MIN_TICK = - 443636"

definition MAX_TICK :: int where
  "MAX_TICK = 443636"

definition TICK_ARRAY_SIZE :: int where
  "TICK_ARRAY_SIZE = 60"

definition TICK_ARRAY_BITMAP_SIZE :: int where
  "TICK_ARRAY_BITMAP_SIZE = 512"

definition TOTAL_BITS :: int where
  "TOTAL_BITS = 1024"

definition U1024_MASK :: int where
  "U1024_MASK = bigint_shl 1 TOTAL_BITS - 1"

definition tickCount :: "int \<Rightarrow> int" where
  "tickCount tickSpacing = TICK_ARRAY_SIZE * tickSpacing"

definition getArrayStartIndex :: "int \<Rightarrow> int \<Rightarrow> int" where
  "getArrayStartIndex tickIndex tickSpacing =
     (let ticksInArray = tickCount tickSpacing;
          start = math_floor_div tickIndex ticksInArray;
          start = (if tickIndex < 0 \<and> js_rem tickIndex ticksInArray \<noteq> 0
                   then start - 1 else start)
      in start * ticksInArray)"

text \<open>
  The loops \<open>value |= BigInt(words[i]) << BigInt(sh(i))\<close> of \<open>u1024FromList\<close> (with
  \<open>sh(i) = 64 * i\<close>) and of the 512-bit reconstructions (with \<open>sh(i) = (7 - i) * 64\<close>).
\<close>

fun or_shifted :: "(int \<Rightarrow> int) \<Rightarrow> int \<Rightarrow> int list \<Rightarrow> int \<Rightarrow> int" where
  "or_shifted sh i [] v = v"
| "or_shifted sh i (w # ws) v = or_shifted sh (i + 1) ws (v OR bigint_shl w (sh i))"

definition u1024FromList :: "int list \<Rightarrow> int" where
  "u1024FromList words = or_shifted (\<lambda>i. 64 * i) 0 words 0 AND U1024_MASK"

definition maxTickInTickarrayBitmap :: "int \<Rightarrow> int" where
  "maxTickInTickarrayBitmap tickSpacing = tickSpacing * TICK_ARRAY_SIZE * TICK_ARRAY_BITMAP_SIZE"

definition mostSignificantBit :: "int \<Rightarrow> int option" where
  "mostSignificantBit x = (if x = 0 then None else Some (TOTAL_BITS - binary_digits x))"

definition leastSignificantBit :: "int \<Rightarrow> int option" where
  "leastSignificantBit x = (if x = 0 then None else Some (binary_digits (x AND - x) - 1))"

definition nextInitializedTickArrayStartIndexInBitmap ::
  "int \<Rightarrow> int \<Rightarrow> int \<Rightarrow> bool \<Rightarrow> bool \<times> int" where
  "nextInitializedTickArrayStartIndexInBitmap bitMap lastTickArrayStartIndex tickSpacing zeroForOne =
     (let bitMap = bitMap AND U1024_MASK;
          tickBoundary = maxTickInTickarrayBitmap tickSpacing;
          nextTickArrayStartIndex =
            (if zeroForOne then lastTickArrayStartIndex - tickCount tickSpacing
             else lastTickArrayStartIndex + tickCount tickSpacing)
      in if nextTickArrayStartIndex < - tickBoundary \<or> nextTickArrayStartIndex \<ge> tickBoundary
         then (False, lastTickArrayStartIndex)
         else
           (let multiplier = tickSpacing * TICK_ARRAY_SIZE;
                compressed = math_floor_div nextTickArrayStartIndex multiplier + 512;
                compressed =
                  (if nextTickArrayStartIndex < 0 \<and> js_rem nextTickArrayStartIndex multiplier \<noteq> 0
                   then compressed - 1 else compressed);
                bitPos = \<bar>compressed\<bar>
            in if zeroForOne
               then
                 (let shiftAmount = TOTAL_BITS - bitPos - 1;
                      offsetBitMap = bigint_shl bitMap shiftAmount AND U1024_MASK
                  in case mostSignificantBit offsetBitMap of
                       Some nextBit \<Rightarrow> (True, (bitPos - nextBit - 512) * multiplier)
                     | None \<Rightarrow> (False, - tickBoundary))
               else
                 (let offsetBitMap = bigint_shr bitMap bitPos
                  in case leastSignificantBit offsetBitMap of
                       Some nextBit \<Rightarrow> (True, (bitPos + nextBit - 512) * multiplier)
                     | None \<Rightarrow> (False, tickBoundary - tickCount tickSpacing))))"

text \<open>
  The extension is a pair of arrays of segments, each segment an array of 64-bit words.
  \<open>getBitmap\<close> indexes them without a range check, so the segment it returns may be
  \<open>undefined\<close>.
\<close>

definition getBitmap ::
  "int \<Rightarrow> int \<Rightarrow> int list list \<Rightarrow> int list list \<Rightarrow> int \<times> int list option" where
  "getBitmap tickIndex tickSpacing positiveBitmap negativeBitmap =
     (let ticksInOneBitmap = tickSpacing * TICK_ARRAY_SIZE * TICK_ARRAY_BITMAP_SIZE;
          offset = math_floor_div \<bar>tickIndex\<bar> ticksInOneBitmap - 1;
          offset = (if tickIndex < 0 \<and> js_rem \<bar>tickIndex\<bar> ticksInOneBitmap = 0
                    then offset - 1 else offset)
      in if tickIndex < 0 then (offset, js_index negativeBitmap offset)
         else (offset, js_index positiveBitmap offset))"

definition u512LeadingZeros :: "int \<Rightarrow> int" where
  "u512LeadingZeros x = (if x = 0 then 512 else 512 - binary_digits x)"

definition u512TrailingZeros :: "int \<Rightarrow> int" where
  "u512TrailingZeros x = (if x = 0 then 512 else binary_digits (x AND - x) - 1)"

definition calcTickArrayOffsetInBitmap :: "int \<Rightarrow> int \<Rightarrow> int" where
  "calcTickArrayOffsetInBitmap tickArrayStartIndex tickSpacing =
     (let m = js_rem \<bar>tickArrayStartIndex\<bar> (tickSpacing * TICK_ARRAY_SIZE * TICK_ARRAY_BITMAP_SIZE);
          offset = math_floor_div m (TICK_ARRAY_SIZE * tickSpacing)
      in if tickArrayStartIndex < 0 \<and> m \<noteq> 0 then TICK_ARRAY_BITMAP_SIZE - offset else offset)"

definition getBitmapTickBoundary :: "int \<Rightarrow> int \<Rightarrow> int \<times> int" where
  "getBitmapTickBoundary tickArrayStartIndex tickSpacing =
     (let ticksInOneBitmap = tickSpacing * TICK_ARRAY_SIZE * TICK_ARRAY_BITMAP_SIZE;
          m = math_floor_div \<bar>tickArrayStartIndex\<bar> ticksInOneBitmap;
          m = (if tickArrayStartIndex < 0 \<and> js_rem \<bar>tickArrayStartIndex\<bar> ticksInOneBitmap \<noteq> 0
               then m + 1 else m);
          minValue = ticksInOneBitmap * m
      in if tickArrayStartIndex < 0 then (- minValue, - minValue + ticksInOneBitmap)
         else (minValue, minValue + ticksInOneBitmap))"

text \<open>Reading \<open>.length\<close> of an \<open>undefined\<close> segment throws a \<open>TypeError\<close>.\<close>

definition nextInitializedTickArrayInBitmap ::
  "int list option \<Rightarrow> int \<Rightarrow> int \<Rightarrow> bool \<Rightarrow> js_error + bool \<times> int" where
  "nextInitializedTickArrayInBitmap tickarrayBitmap nextTickArrayStartIndex tickSpacing zeroForOne =
     (let (bitmapMinBoundary, bitmapMaxBoundary) =
            getBitmapTickBoundary nextTickArrayStartIndex tickSpacing;
          tickArrayOffset = calcTickArrayOffsetInBitmap nextTickArrayStartIndex tickSpacing
      in case tickarrayBitmap of
           None \<Rightarrow> Inl TypeError
         | Some words \<Rightarrow>
             (let u512TickarrayBitmap = or_shifted (\<lambda>i. (7 - i) * 64) 0 words 0
              in if zeroForOne
                 then
                   (let offsetBitMap =
                          bigint_shl u512TickarrayBitmap (TICK_ARRAY_BITMAP_SIZE - 1 - tickArrayOffset)
                            AND (bigint_shl 1 TICK_ARRAY_BITMAP_SIZE - 1);
                        nextBit = (if offsetBitMap = 0 then None
                                   else Some (u512LeadingZeros offsetBitMap))
                    in case nextBit of
                         Some nextBit \<Rightarrow>
                           Inr (True, nextTickArrayStartIndex - nextBit * tickCount tickSpacing)
                       | None \<Rightarrow> Inr (False, bitmapMinBoundary))
                 else
                   (let offsetBitMap = bigint_shr u512TickarrayBitmap tickArrayOffset;
                        nextBit = (if offsetBitMap = 0 then None
                                   else Some (u512TrailingZeros offsetBitMap))
                    in case nextBit of
                         Some nextBit \<Rightarrow>
                           Inr (True, nextTickArrayStartIndex + nextBit * tickCount tickSpacing)
                       | None \<Rightarrow> Inr (False, bitmapMaxBoundary - tickCount tickSpacing))))"

definition nextInitializedTickArrayFromOneBitmap ::
  "int \<Rightarrow> int \<Rightarrow> bool \<Rightarrow> int list list \<times> int list list \<Rightarrow> js_error + bool \<times> int" where
  "nextInitializedTickArrayFromOneBitmap lastTickArrayStartIndex tickSpacing zeroForOne
       tickarrayBitmapExtension =
     (let multiplier = tickCount tickSpacing;
          nextTickArrayStartIndex =
            (if zeroForOne then lastTickArrayStartIndex - multiplier
             else lastTickArrayStartIndex + multiplier);
          minTickArrayStartIndex = getArrayStartIndex MIN_TICK tickSpacing;
          maxTickArrayStartIndex = getArrayStartIndex MAX_TICK tickSpacing
      in if nextTickArrayStartIndex < minTickArrayStartIndex
            \<or> nextTickArrayStartIndex > maxTickArrayStartIndex
         then Inr (False, nextTickArrayStartIndex)
         else
           (let (positiveBitmap, negativeBitmap) = tickarrayBitmapExtension;
                (_, tickarrayBitmap) =
                  getBitmap nextTickArrayStartIndex tickSpacing positiveBitmap negativeBitmap
            in nextInitializedTickArrayInBitmap tickarrayBitmap nextTickArrayStartIndex
                 tickSpacing zeroForOne))"

text \<open>
  The \<open>while (true)\<close> loop of \<open>nextInitializedTickArrayStartIndex\<close>.  Nothing in its text
  bounds the number of rounds, so it is a partial function: \<open>None\<close> stands for a loop that
  never returns.  When it returns, the result carries the returned value (\<open>None\<close> for
  \<open>null\<close>) and the value of the variable \<open>lastTickArrayStartIndex\<close> at that moment.  The
  counter \<open>iteration\<close> of the source is never read and is left out.
\<close>

partial_function (option) scan_loop ::
  "int list \<Rightarrow> int list list \<times> int list list \<Rightarrow> int \<Rightarrow> int \<Rightarrow> bool
     \<Rightarrow> (js_error + int option \<times> int) option" where
  "scan_loop tickArrayBitmap tickarrayBitmapExtension lastTickArrayStartIndex tickSpacing zeroForOne =
     (case nextInitializedTickArrayStartIndexInBitmap (u1024FromList tickArrayBitmap)
             lastTickArrayStartIndex tickSpacing zeroForOne of
        (found, startIndex) \<Rightarrow>
          if found then Some (Inr (Some startIndex, lastTickArrayStartIndex))
          else
            (case nextInitializedTickArrayFromOneBitmap startIndex tickSpacing zeroForOne
                    tickarrayBitmapExtension of
               Inl e \<Rightarrow> Some (Inl e)
             | Inr (found2, startIndex2) \<Rightarrow>
                 if found2 then Some (Inr (Some startIndex2, startIndex))
                 else if startIndex2 < MIN_TICK \<or> startIndex2 > MAX_TICK
                 then Some (Inr (None, startIndex2))
                 else scan_loop tickArrayBitmap tickarrayBitmapExtension startIndex2
                        tickSpacing zeroForOne))"

declare scan_loop.simps [code]

definition nextInitializedTickArrayStartIndex ::
  "int list \<Rightarrow> int list list \<times> int list list \<Rightarrow> int \<Rightarrow> int \<Rightarrow> bool
     \<Rightarrow> (js_error + int option) option" where
  "nextInitializedTickArrayStartIndex tickArrayBitmap tickarrayBitmapExtension
       lastTickArrayStartIndex tickSpacing zeroForOne =
     map_option (map_sum id fst)
       (scan_loop tickArrayBitmap tickarrayBitmapExtension
          (getArrayStartIndex lastTickArrayStartIndex tickSpacing) tickSpacing zeroForOne)"

text \<open>The module's own tests of one array's bit, in the inline bitmap and in the extension.\<close>

definition checkCurrentTickArrayIsInitialized :: "int \<Rightarrow> int \<Rightarrow> int \<Rightarrow> bool \<times> int" where
  "checkCurrentTickArrayIsInitialized bitMap tickCurrent tickSpacing =
     (let multiplier = tickSpacing * TICK_ARRAY_SIZE;
          compressed = math_floor_div tickCurrent multiplier + 512;
          compressed = (if tickCurrent < 0 \<and> js_rem tickCurrent multiplier \<noteq> 0
                        then compressed - 1 else compressed);
          bitPos = \<bar>compressed\<bar>;
          mask = bigint_shl 1 bitPos;
          masked = bitMap AND mask;
          initialized = (masked \<noteq> 0);
          resultTick = (compressed - 512) * multiplier
      in (initialized, resultTick))"

definition checkTickArrayIsInitialized ::
  "int \<Rightarrow> int \<Rightarrow> int list list \<times> int list list \<Rightarrow> js_error + bool \<times> int" where
  "checkTickArrayIsInitialized tickArrayStartIndex tickSpacing tickarrayBitmapExtension =
     (let (positiveBitmap, negativeBitmap) = tickarrayBitmapExtension;
          (_, bitmap) = getBitmap tickArrayStartIndex tickSpacing positiveBitmap negativeBitmap;
          tickArrayOffset = calcTickArrayOffsetInBitmap tickArrayStartIndex tickSpacing
      in case bitmap of
           None \<Rightarrow> Inl TypeError
         | Some words \<Rightarrow>
             (let u512 = or_shifted (\<lambda>i. (7 - i) * 64) 0 words 0;
                  b = bigint_shr u512 tickArrayOffset AND 1;
                  initialized = (b = 1)
              in Inr (initialized, tickArrayStartIndex)))"

text \<open>
  The shape \<open>parseTickArrayBitmapExtension\<close> produces: fourteen segments on either side
  (\<open>EXTENSION_TICKARRAY_BITMAP_SIZE\<close>), each of eight unsigned 64-bit words.
\<close>

definition EXTENSION_TICKARRAY_BITMAP_SIZE :: nat where
  "EXTENSION_TICKARRAY_BITMAP_SIZE = 14"

definition u64_words :: "int list \<Rightarrow> bool" where
  "u64_words ws \<longleftrightarrow> length ws = 8 \<and> (\<forall>w \<in> set ws. 0 \<le> w \<and> w < 2 ^ 64)"

definition parsed_extension :: "int list list \<times> int list list \<Rightarrow> bool" where
  "parsed_extension ext \<longleftrightarrow>
     length (fst ext) = EXTENSION_TICKARRAY_BITMAP_SIZE
     \<and> length (snd ext) = EXTENSION_TICKARRAY_BITMAP_SIZE
     \<and> list_all u64_words (fst ext) \<and> list_all u64_words (snd ext)"

text \<open>What a returned result of the scan has to satisfy, and the invariant of its loop.\<close>

definition scan_result_ok ::
  "int list \<Rightarrow> int list list \<times> int list list \<Rightarrow> int \<Rightarrow> js_error + int option \<times> int \<Rightarrow> bool" where
  "scan_result_ok bm ext s r =
     (case r of
        Inl e \<Rightarrow> False
      | Inr (None, l) \<Rightarrow> l < MIN_TICK \<or> MAX_TICK < l
      | Inr (Some i, l) \<Rightarrow>
          checkCurrentTickArrayIsInitialized (u1024FromList bm) i s = (True, i)
          \<or> checkTickArrayIsInitialized i s ext = Inr (True, i))"

definition aligned :: "int \<Rightarrow> int \<Rightarrow> bool" where
  "aligned s n \<longleftrightarrow> tickCount s dvd n"

definition empty_extension :: "int list list \<times> int list list" where
  "empty_extension = (replicate 14 (replicate 8 0), replicate 14 (replicate 8 0))"


section \<open>128-bit values as two little-endian words\<close>

text \<open>
  \<open>decodeUInt128\<close> and \<open>encodeUInt128\<close> occur twice with the same text (the CPMM layout
  file and the CPMM trading file).  A \<open>BN\<close> of the unsigned kind is a \<open>nat\<close>; a buffer is a
  list of bytes.  \<open>toArrayLike(Buffer, 'le', n)\<close> of bn.js asserts that the value fits in
  \<open>n\<close> bytes.
\<close>

type_synonym byte = "8 word"

fun le_bytes :: "nat \<Rightarrow> nat \<Rightarrow> byte list" where
  "le_bytes 0 v = []"
| "le_bytes (Suc k) v = of_nat (v mod 256) # le_bytes k (v div 256)"

definition toArrayLike_le :: "nat \<Rightarrow> nat \<Rightarrow> js_error + byte list" where
  "toArrayLike_le v len =
     (if v < 256 ^ len then Inr (le_bytes len v) else Inl AssertionError)"

fun bn_of_le :: "byte list \<Rightarrow> nat" where
  "bn_of_le [] = 0"
| "bn_of_le (b # bs) = unat b + 256 * bn_of_le bs"

definition buffer_slice :: "'a list \<Rightarrow> nat \<Rightarrow> nat \<Rightarrow> 'a list" where
  "buffer_slice buffer start end = take (end - start) (drop start buffer)"

definition decodeUInt128 :: "byte list \<Rightarrow> nat" where
  "decodeUInt128 buffer =
     (let low = bn_of_le (buffer_slice buffer 0 8);
          high = bn_of_le (buffer_slice buffer 8 16)
      in push_bit 64 high + low)"

definition encodeUInt128 :: "nat \<Rightarrow> js_error + byte list" where
  "encodeUInt128 num =
     (case toArrayLike_le (take_bit 64 num) 8 of
        Inl e \<Rightarrow> Inl e
      | Inr low \<Rightarrow>
          (case toArrayLike_le (drop_bit 64 num) 8 of
             Inl e \<Rightarrow> Inl e
           | Inr high \<Rightarrow> Inr (low @ high)))"


section \<open>The CLMM swap instruction\<close>

type_synonym PublicKey = string

record AccountMeta =
  pubkey :: PublicKey
  isSigner :: bool
  isWritable :: bool

record TransactionInstruction =
  keys :: "AccountMeta list"
  programId :: PublicKey
  data :: "byte list"

datatype Direction = BUY | SELL

text \<open>The key fields of \<open>ClmmPoolKeys\<close>; its numeric fields are not read by the builder.\<close>

record ClmmPoolKeys =
  poolState :: PublicKey
  ammConfig :: PublicKey
  owner :: PublicKey
  tokenMint0 :: PublicKey
  tokenMint1 :: PublicKey
  tokenVault0 :: PublicKey
  tokenVault1 :: PublicKey
  observationKey :: PublicKey
  currentTickArray :: PublicKey
  nextTickArray1 :: PublicKey
  nextTickArray2 :: PublicKey
  bitmapExtension :: PublicKey

definition TOKEN_PROGRAM_ID :: PublicKey where
  "TOKEN_PROGRAM_ID = ''TokenkegQfeZyiNwAJbNbGKPFXCWuBvf9Ss623VQ5DA''"

definition TOKEN_2022_PROGRAM_ID :: PublicKey where
  "TOKEN_2022_PROGRAM_ID = ''TokenzQdBNbLqP5VEhdkAS6EPFLC1PHnBqCXEpPxuEb''"

definition MEMO_PROGRAM_V2 :: PublicKey where
  "MEMO_PROGRAM_V2 = ''MemoSq4gqABAXKb96qnH8TysNcWxMyWCqXgDLGmfcHr''"

text \<open>\<open>Buffer.from(s, 'hex')\<close>: one byte per pair of hex digits, up to the first bad pair.\<close>

definition hex_val :: "char \<Rightarrow> nat option" where
  "hex_val c =
     (let n = (of_char c :: nat)
      in if 48 \<le> n \<and> n \<le> 57 then Some (n - 48)
         else if 97 \<le> n \<and> n \<le> 102 then Some (n - 87)
         else if 65 \<le> n \<and> n \<le> 70 then Some (n - 55)
         else None)"

fun buffer_from_hex :: "string \<Rightarrow> byte list" where
  "buffer_from_hex (a # b # rest) =
     (case hex_val a of
        None \<Rightarrow> []
      | Some h \<Rightarrow>
          (case hex_val b of
             None \<Rightarrow> []
           | Some l \<Rightarrow> of_nat (16 * h + l) # buffer_from_hex rest))"
| "buffer_from_hex _ = []"

text \<open>
  The amount is declared \<open>number\<close>, so it need not be an integer: numbers are reals here
  (\<open>NaN\<close> and the infinities, which the range check of \<open>packU64\<close> rejects, have no
  counterpart).

  \<open>new BN(value)\<close> for a number, as bn.js has it: it asserts that the magnitude is below
  \<open>2^53\<close> and reads the magnitude in 26-bit words with \<open>&\<close>, which drops the fraction.
  The sign, which bn.js keeps apart, is left out: only non-negative numbers reach the
  constructor here, since \<open>packU64\<close> rejects the others first.
\<close>

definition BN_of_number :: "real \<Rightarrow> js_error + nat" where
  "BN_of_number v =
     (if \<bar>v\<bar> < 2 ^ 53 then Inr (nat \<lfloor>\<bar>v\<bar>\<rfloor>) else Inl AssertionError)"

definition packU64 :: "real \<Rightarrow> js_error + byte list" where
  "packU64 v =
     (if \<not> (0 \<le> v \<and> v < 2 ^ 64)
      then Inl (Error ''Value must be in the range of a u64 (0 to 2^64 - 1).'')
      else (case BN_of_number v of
              Inl e \<Rightarrow> Inl e
            | Inr bn \<Rightarrow> toArrayLike_le bn 8))"

definition account :: "PublicKey \<Rightarrow> bool \<Rightarrow> bool \<Rightarrow> AccountMeta" where
  "account k s w = \<lparr>pubkey = k, isSigner = s, isWritable = w\<rparr>"

definition makeClmmSwapInstruction ::
  "real \<Rightarrow> PublicKey \<Rightarrow> PublicKey \<Rightarrow> ClmmPoolKeys \<Rightarrow> PublicKey \<Rightarrow> Direction
     \<Rightarrow> js_error + TransactionInstruction" where
  "makeClmmSwapInstruction amount tokenAccountIn tokenAccountOut poolKeys payer action =
     (let (inputVault, outputVault, inputMint, outputMint) =
            (if action = BUY
             then (tokenVault0 poolKeys, tokenVault1 poolKeys,
                   tokenMint0 poolKeys, tokenMint1 poolKeys)
             else (tokenVault1 poolKeys, tokenVault0 poolKeys,
                   tokenMint1 poolKeys, tokenMint0 poolKeys));
          keys =
            [account payer True True,
             account (ammConfig poolKeys) False False,
             account (poolState poolKeys) False True,
             account tokenAccountIn False True,
             account tokenAccountOut False True,
             account inputVault False True,
             account outputVault False True,
             account (observationKey poolKeys) False True,
             account TOKEN_PROGRAM_ID False False,
             account TOKEN_2022_PROGRAM_ID False False,
             account MEMO_PROGRAM_V2 False False,
             account inputMint False False,
             account outputMint False False,
             account (currentTickArray poolKeys) False True,
             account (bitmapExtension poolKeys) False True,
             account (nextTickArray1 poolKeys) False True,
             account (nextTickArray2 poolKeys) False True];
          dataArray = [buffer_from_hex ''2b04ed0b1ac91e62'']
      in case packU64 amount of
           Inl e \<Rightarrow> Inl e
         | Inr amountBytes \<Rightarrow>
             (case packU64 0 of
                Inl e \<Rightarrow> Inl e
              | Inr zeroBytes \<Rightarrow>
                  (let dataArray = dataArray @ [amountBytes] @ [zeroBytes]
                                     @ [replicate 16 0] @ [[1]]
                   in Inr \<lparr>keys = keys,
                           programId = ''CAMMCzo5YL8w4VFF8KVHrK22GGUsp5VTaW7grrKgrWqK'',
                           data = concat dataArray\<rparr>)))"

definition sample_pool :: ClmmPoolKeys where
  "sample_pool =
     \<lparr>poolState = ''pool'', ammConfig = ''config'', owner = ''owner'',
      tokenMint0 = ''mint0'', tokenMint1 = ''mint1'',
      tokenVault0 = ''vault0'', tokenVault1 = ''vault1'',
      observationKey = ''observation'', currentTickArray = ''ticks0'',
      nextTickArray1 = ''ticks1'', nextTickArray2 = ''ticks2'',
      bitmapExtension = ''extension''\<rparr>"


section \<open>Transaction confirmation\<close>

text \<open>
  What one call of \<open>getTransaction\<close> gives: an exception, or a response that holds the
  transaction or nothing.  A transaction carries an optional \<open>meta\<close>, whose field \<open>err\<close>
  is \<open>null\<close> or a \<open>TransactionError\<close> (declared \<open>{} | string\<close>: an object, here by its
  JSON text, or a string).  An object is truthy; a string is truthy unless it is empty.
\<close>

datatype TransactionError = ErrObject string | ErrString string

fun truthy_error :: "TransactionError \<Rightarrow> bool" where
  "truthy_error (ErrObject _) = True"
| "truthy_error (ErrString s) = (s \<noteq> [])"

datatype TransactionMeta = Meta (err: "TransactionError option")

datatype TransactionResponse = Txn (meta: "TransactionMeta option")

datatype lookup = Throws | Returns "TransactionResponse option"

text \<open>
  One poll of the AMM bot's \<open>confirmTxn\<close>: \<open>Some b\<close> returns \<open>b\<close>, \<open>None\<close> goes on to
  \<open>retries++\<close>.  A found transaction whose error is not \<open>null\<close> returns false.
\<close>

definition poll_raydium :: "lookup \<Rightarrow> bool option" where
  "poll_raydium txnRes =
     (case txnRes of
        Throws \<Rightarrow> None
      | Returns None \<Rightarrow> None
      | Returns (Some v) \<Rightarrow>
          (case meta v of
             None \<Rightarrow> None
           | Some m \<Rightarrow> if err m = None then Some True else Some False))"

text \<open>
  One poll of the bonding-curve bot's \<open>confirmTxn\<close>: the second test is
  \<open>txnRes.meta && txnRes.meta.err\<close>, the truthiness of the error.
\<close>

definition poll_pumpfun :: "lookup \<Rightarrow> bool option" where
  "poll_pumpfun txnRes =
     (case txnRes of
        Throws \<Rightarrow> None
      | Returns None \<Rightarrow> None
      | Returns (Some v) \<Rightarrow>
          (case meta v of
             None \<Rightarrow> None
           | Some m \<Rightarrow>
               (case err m of
                  None \<Rightarrow> Some True
                | Some e \<Rightarrow> if truthy_error e then Some False else None)))"

text \<open>
  The loop \<open>while (retries < maxRetries)\<close>, the same in both copies.  \<open>client k\<close> is what
  the \<open>k\<close>-th call of \<open>getTransaction\<close> gives (from 0); the result is the returned value
  (\<open>None\<close> for \<open>null\<close>) with the number of calls made.  The pause between two polls takes
  time and changes nothing else.
\<close>

function confirmTxn_loop ::
  "(lookup \<Rightarrow> bool option) \<Rightarrow> (nat \<Rightarrow> lookup) \<Rightarrow> int \<Rightarrow> int \<Rightarrow> nat \<Rightarrow> bool option \<times> nat" where
  "confirmTxn_loop poll client maxRetries retries polls =
     (if retries < maxRetries
      then (case poll (client polls) of
              Some confirmed \<Rightarrow> (Some confirmed, Suc polls)
            | None \<Rightarrow> confirmTxn_loop poll client maxRetries (retries + 1) (Suc polls))
      else (None, polls))"
  by pat_completeness auto
termination
  by (relation "measure (\<lambda>(poll, client, maxRetries, retries, polls). nat (maxRetries - retries))")
    auto

declare confirmTxn_loop.simps [simp del]

definition confirmTxn :: "(nat \<Rightarrow> lookup) \<Rightarrow> int \<Rightarrow> bool option \<times> nat" where
  "confirmTxn client maxRetries = confirmTxn_loop poll_raydium client maxRetries 1 0"

definition confirmTxn_pumpfun :: "(nat \<Rightarrow> lookup) \<Rightarrow> int \<Rightarrow> bool option \<times> nat" where
  "confirmTxn_pumpfun client maxRetries = confirmTxn_loop poll_pumpfun client maxRetries 1 0"

text \<open>The lookups the properties speak of.\<close>

definition found_ok :: lookup where
  "found_ok = Returns (Some (Txn (Some (Meta None))))"

definition found_err :: "TransactionError \<Rightarrow> lookup" where
  "found_err e = Returns (Some (Txn (Some (Meta (Some e)))))"

definition pending :: "lookup \<Rightarrow> bool" where
  "pending r \<longleftrightarrow> r = Throws \<or> r = Returns None"


section \<open>The copy-trading orchestrator\<close>

subsection \<open>Strings and the feed's patterns\<close>

text \<open>
  Messages are strings of 8-bit characters.  \<open>s.includes(t)\<close> is the substring test.  The
  patterns of \<open>extractTransactionDetails\<close> are searched from the left, as \<open>exec\<close> does:
  \<^item> \<open>"key":"(.*?)"\<close> takes, at the first place where it can, the shortest run (without
    a line terminator) up to the next double quote;
  \<^item> \<open>"key":([\d.]+)\<close> takes the longest non-empty run of digits and dots;
  \<^item> \<open>"type":"(buy|sell)"\<close> takes the first of the two words that stands there.
\<close>

definition dq :: char where
  "dq = CHR 0x22"

definition line_terminator :: "char \<Rightarrow> bool" where
  "line_terminator c \<longleftrightarrow> c = CHR 0x0A \<or> c = CHR 0x0D"

fun starts_with :: "string \<Rightarrow> string \<Rightarrow> bool" where
  "starts_with s [] = True"
| "starts_with [] (c # p) = False"
| "starts_with (a # s) (c # p) = (a = c \<and> starts_with s p)"

fun js_includes :: "string \<Rightarrow> string \<Rightarrow> bool" where
  "js_includes [] t = (t = [])"
| "js_includes (a # s) t = (starts_with (a # s) t \<or> js_includes s t)"

fun lazy_until_quote :: "string \<Rightarrow> string option" where
  "lazy_until_quote [] = None"
| "lazy_until_quote (c # s) =
     (if c = dq then Some []
      else if line_terminator c then None
      else map_option ((#) c) (lazy_until_quote s))"

definition quoted_prefix :: "string \<Rightarrow> string" where
  "quoted_prefix key = [dq] @ key @ [dq, CHR '':'', dq]"

definition number_prefix :: "string \<Rightarrow> string" where
  "number_prefix key = [dq] @ key @ [dq, CHR '':'']"

fun exec_quoted :: "string \<Rightarrow> string \<Rightarrow> string option" where
  "exec_quoted key [] = None"
| "exec_quoted key (c # s) =
     (if starts_with (c # s) (quoted_prefix key)
      then (case lazy_until_quote (drop (length (quoted_prefix key)) (c # s)) of
              Some v \<Rightarrow> Some v
            | None \<Rightarrow> exec_quoted key s)
      else exec_quoted key s)"

definition digit_or_dot :: "char \<Rightarrow> bool" where
  "digit_or_dot c \<longleftrightarrow> c = CHR ''.'' \<or> (48 \<le> (of_char c :: nat) \<and> (of_char c :: nat) \<le> 57)"

fun exec_number :: "string \<Rightarrow> string \<Rightarrow> string option" where
  "exec_number key [] = None"
| "exec_number key (c # s) =
     (if starts_with (c # s) (number_prefix key)
         \<and> takeWhile digit_or_dot (drop (length (number_prefix key)) (c # s)) \<noteq> []
      then Some (takeWhile digit_or_dot (drop (length (number_prefix key)) (c # s)))
      else exec_number key s)"

fun exec_type :: "string \<Rightarrow> string option" where
  "exec_type [] = None"
| "exec_type (c # s) =
     (if starts_with (c # s) (quoted_prefix ''type'' @ ''buy'' @ [dq]) then Some ''buy''
      else if starts_with (c # s) (quoted_prefix ''type'' @ ''sell'' @ [dq]) then Some ''sell''
      else exec_type s)"

record TransactionDetails =
  transaction_type :: "string option"
  trader_level :: "string option"
  token_amount :: "string option"
  maker_address :: "string option"
  price_sol :: "string option"
  price_usd :: "string option"
  total_sol :: "string option"
  total_usd :: "string option"
  created_at :: "string option"
  token_address :: "string option"
  pair_address :: "string option"
  token_name :: "string option"
  token_code :: "string option"
  protocol :: "string option"

definition extractTransactionDetails :: "string \<Rightarrow> TransactionDetails" where
  "extractTransactionDetails text =
     \<lparr>transaction_type = exec_type text,
      trader_level = exec_quoted ''trader_level'' text,
      token_amount = exec_number ''token_amount'' text,
      maker_address = exec_quoted ''maker_address'' text,
      price_sol = exec_number ''price_sol'' text,
      price_usd = exec_number ''price_usd'' text,
      total_sol = exec_number ''total_sol'' text,
      total_usd = exec_number ''total_usd'' text,
      created_at = exec_quoted ''created_at'' text,
      token_address = exec_quoted ''tokenAddress'' text,
      pair_address = exec_quoted ''pair_address'' text,
      token_name = exec_quoted ''tokenName'' text,
      token_code = exec_quoted ''tokenTicker'' text,
      protocol = exec_quoted ''protocol'' text\<rparr>"

subsection \<open>Configuration, session state and the trading calls\<close>

text \<open>
  The configuration is what the environment variables were parsed to.  Amounts of SOL are
  numbers that the handler only compares and adds up; they are reals here.  The session
  state is the module's mutable state (\<open>buyList\<close>, \<open>spent\<close>) together with what the
  process did: the calls of the underlying trading operations and the lines logged.

  The trading operations themselves (\<open>buyPumpFun\<close>, \<open>buyRaydium\<close>, \<open>sellPumpFun\<close>,
  \<open>sellRaydium\<close>) are the environment: \<open>returned env\<close> gives, for the calls made so far
  with the present one last, what the present call gives back, a value or an exception.

  The sum of two numbers is the machine's as well: \<open>spent += solAmount\<close> adds two IEEE-754
  doubles, and that addition rounds.  \<open>number_sum env\<close> stands for it, and nothing is
  assumed about what it gives.  Comparisons of numbers are exact, on doubles as on reals.
\<close>

record config =
  trackWallets :: string
  maxSlippage :: int
  solIn :: real
  maxSolSpend :: real
  allowRebuy :: bool
  maxBuyAttempts :: int

datatype js_ret = RTrue | RFalse | RUndefined | RNull | RThrow

datatype call =
    BuyPumpFun string real int
  | BuyRaydium string real int
  | SellPumpFun string int int
  | SellRaydium string int int

datatype log_entry =
    AlreadySpent real real
  | AlreadyBought string string int
  | AlreadyAttempted string string int
  | TryingToBuy string string int
  | Bought string string int
  | FailedToBuy string string int
  | TryingToSell string string int
  | FailedToSell string string int
  | NotSupported "string option" "string option" "string option" "string option"

record environment =
  returned :: "call list \<Rightarrow> js_ret"
  number_sum :: "real \<Rightarrow> real \<Rightarrow> real"

record session =
  buyList :: "string list"
  spent :: real
  calls :: "call list"
  console :: "log_entry list"

definition say :: "log_entry \<Rightarrow> session \<Rightarrow> session" where
  "say e st = st\<lparr>console := console st @ [e]\<rparr>"

definition invoke :: "call \<Rightarrow> session \<Rightarrow> session" where
  "invoke c st = st\<lparr>calls := calls st @ [c]\<rparr>"

definition init_session :: session where
  "init_session = \<lparr>buyList = [], spent = 0, calls = [], console = []\<rparr>"

subsection \<open>\<open>buyToken\<close> and \<open>sellToken\<close>\<close>

text \<open>
  The loop of \<open>buyToken\<close>.  A round that goes on raises \<open>attempts\<close>, and no round goes
  on once \<open>attempts\<close> exceeds \<open>maxBuyAttempts\<close>, which is the measure of its termination.
  The pacing delay takes time and changes nothing else.
\<close>

function buyToken_loop ::
  "config \<Rightarrow> environment \<Rightarrow> string \<Rightarrow> string \<Rightarrow> string \<Rightarrow> real \<Rightarrow> int
     \<Rightarrow> int \<Rightarrow> session \<Rightarrow> session" where
  "buyToken_loop cfg env dex name address solAmount slippage attempts st =
     (if \<not> allowRebuy cfg \<and> address \<in> set (buyList st)
      then say (AlreadyBought dex name attempts) st
      else if attempts > maxBuyAttempts cfg
      then say (AlreadyAttempted dex name attempts) st
      else
        (let attempts = attempts + 1;
             st = say (TryingToBuy dex name attempts) st;
             st = st\<lparr>buyList := buyList st @ [address]\<rparr>;
             st = invoke (if dex = ''ra'' then BuyRaydium address solAmount slippage
                          else BuyPumpFun address solAmount slippage) st;
             bought = returned env (calls st)
         in if bought = RThrow
            then buyToken_loop cfg env dex name address solAmount slippage attempts
                   (say (FailedToBuy dex name attempts) st)
            else if bought = RTrue
            then say (Bought dex name attempts) (st\<lparr>spent := number_sum env (spent st) solAmount\<rparr>)
            else buyToken_loop cfg env dex name address solAmount slippage attempts st))"
  by pat_completeness auto
termination
  by (relation "measure (\<lambda>(cfg, env, dex, name, address, solAmount, slippage, attempts, st).
        nat (maxBuyAttempts cfg + 1 - attempts))") auto

declare buyToken_loop.simps [simp del]

definition buyToken ::
  "config \<Rightarrow> environment \<Rightarrow> string \<Rightarrow> string \<Rightarrow> string \<Rightarrow> real \<Rightarrow> int
     \<Rightarrow> session \<Rightarrow> session" where
  "buyToken cfg env dex name address solAmount slippage st =
     buyToken_loop cfg env dex name address solAmount slippage 0 st"

text \<open>The loop of \<open>sellToken\<close> has no bound: it ends when a sale gives true or \<open>undefined\<close>.\<close>

partial_function (option) sellToken_loop ::
  "environment \<Rightarrow> string \<Rightarrow> string \<Rightarrow> string \<Rightarrow> int \<Rightarrow> int \<Rightarrow> session
     \<Rightarrow> session option" where
  "sellToken_loop env dex name address slippage attempts st =
     (let st = say (TryingToSell dex name attempts) st;
          st = invoke (if dex = ''ra'' then SellRaydium address 100 slippage
                       else SellPumpFun address 100 slippage) st;
          sold = returned env (calls st)
      in if sold = RThrow
         then sellToken_loop env dex name address slippage (attempts + 1)
                (say (FailedToSell dex name attempts) st)
         else if sold = RUndefined \<or> sold = RTrue
         then Some st
         else sellToken_loop env dex name address slippage (attempts + 1) st)"

definition sellToken ::
  "environment \<Rightarrow> string \<Rightarrow> string \<Rightarrow> string \<Rightarrow> int \<Rightarrow> session \<Rightarrow> session option" where
  "sellToken env dex name address slippage st =
     sellToken_loop env dex name address slippage 0 st"

subsection \<open>The message handler\<close>

text \<open>
  \<open>filterMessages\<close> builds the regular expression \<open>.*(W).*\<close> with flag \<open>s\<close> from the
  configured \<open>trackWallets\<close> string \<open>W\<close>.  The model covers a \<open>W\<close> without operators of
  regular expressions, that is a wallet address or the empty string: then the expression
  matches exactly the messages that contain \<open>W\<close>, and the match is the whole message.
\<close>

definition filterMessages :: "config \<Rightarrow> string \<Rightarrow> TransactionDetails option" where
  "filterMessages cfg msg =
     (if js_includes msg (trackWallets cfg) then Some (extractTransactionDetails msg) else None)"

datatype action = PumpSell | PumpBuy | RaydiumSell

text \<open>\<open>protocolMap[protocol]?.[transaction_type]\<close>: three entries, and no buy for Raydium.\<close>

definition protocolMap :: "string \<Rightarrow> string \<Rightarrow> action option" where
  "protocolMap proto ttype =
     (if proto = ''Pump V1'' \<and> ttype = ''sell'' then Some PumpSell
      else if proto = ''Pump V1'' \<and> ttype = ''buy'' then Some PumpBuy
      else if proto = ''Raydium V4'' \<and> ttype = ''sell'' then Some RaydiumSell
      else None)"

definition or_empty :: "string option \<Rightarrow> string" where
  "or_empty v = (case v of None \<Rightarrow> [] | Some s \<Rightarrow> s)"

definition run_action ::
  "config \<Rightarrow> environment \<Rightarrow> TransactionDetails \<Rightarrow> action \<Rightarrow> session \<Rightarrow> session option" where
  "run_action cfg env d a st =
     (case a of
        PumpSell \<Rightarrow>
          sellToken env ''pf'' (or_empty (token_name d)) (or_empty (token_address d))
            (maxSlippage cfg) st
      | PumpBuy \<Rightarrow>
          Some (buyToken cfg env ''pf'' (or_empty (token_name d)) (or_empty (token_address d))
                  (solIn cfg) (maxSlippage cfg) st)
      | RaydiumSell \<Rightarrow>
          sellToken env ''ra'' (or_empty (token_name d)) (or_empty (pair_address d))
            (maxSlippage cfg) st)"

text \<open>
  The handler of one websocket message, run to its end before the next message; \<open>None\<close>
  when it never returns (a sale that never succeeds).
\<close>

definition on_message ::
  "config \<Rightarrow> environment \<Rightarrow> session \<Rightarrow> string \<Rightarrow> session option" where
  "on_message cfg env st message =
     (if spent st \<ge> maxSolSpend cfg
      then Some (say (AlreadySpent (spent st) (maxSolSpend cfg)) st)
      else
        (case filterMessages cfg message of
           None \<Rightarrow> Some st
         | Some filtered \<Rightarrow>
             (if or_empty (maker_address filtered) = []
                 \<or> \<not> js_includes (or_empty (maker_address filtered)) (trackWallets cfg)
              then Some st
              else
                (case protocolMap (or_empty (protocol filtered))
                        (or_empty (transaction_type filtered)) of
                   None \<Rightarrow>
                     Some (say (NotSupported (transaction_type filtered) (protocol filtered)
                                  (token_name filtered) (token_address filtered)) st)
                 | Some act \<Rightarrow> run_action cfg env filtered act st))))"

text \<open>
  The messages of a feed handled one after the other, each handler run to its end before
  the next message is taken.
\<close>

fun on_messages ::
  "config \<Rightarrow> environment \<Rightarrow> string list \<Rightarrow> session \<Rightarrow> session option" where
  "on_messages cfg env [] st = Some st"
| "on_messages cfg env (message # rest) st =
     (case on_message cfg env st message of
        None \<Rightarrow> None
      | Some st' \<Rightarrow> on_messages cfg env rest st')"

subsection \<open>Runs of buy signals, and sample inputs\<close>

type_synonym buy_signal = "string \<times> string \<times> string \<times> real \<times> int"

fun buyTokens :: "config \<Rightarrow> environment \<Rightarrow> buy_signal list \<Rightarrow> session \<Rightarrow> session" where
  "buyTokens cfg env [] st = st"
| "buyTokens cfg env ((dex, name, address, solAmount, slippage) # rest) st =
     buyTokens cfg env rest (buyToken cfg env dex name address solAmount slippage st)"

fun is_buy_of :: "string \<Rightarrow> call \<Rightarrow> bool" where
  "is_buy_of a (BuyPumpFun x _ _) = (x = a)"
| "is_buy_of a (BuyRaydium x _ _) = (x = a)"
| "is_buy_of a _ = False"

definition buys_of :: "string \<Rightarrow> call list \<Rightarrow> nat" where
  "buys_of a cs = length (filter (is_buy_of a) cs)"

definition buy_call :: "string \<Rightarrow> string \<Rightarrow> real \<Rightarrow> int \<Rightarrow> call" where
  "buy_call dex address solAmount slippage =
     (if dex = ''ra'' then BuyRaydium address solAmount slippage
      else BuyPumpFun address solAmount slippage)"

definition once :: "session \<Rightarrow> bool" where
  "once st \<longleftrightarrow>
     (\<forall>a. buys_of a (calls st) \<le> 1 \<and> (a \<notin> set (buyList st) \<longrightarrow> buys_of a (calls st) = 0))"

text \<open>
  A sample environment: every trading call gives \<open>r\<close>, and sums are exact (as the sum of
  0 and an amount is for doubles too).
\<close>

definition always :: "js_ret \<Rightarrow> environment" where
  "always r = \<lparr>returned = (\<lambda>made. r), number_sum = (\<lambda>x y. x + y)\<rparr>"

definition track_all :: config where
  "track_all = \<lparr>trackWallets = [], maxSlippage = 5, solIn = 0.01, maxSolSpend = 1,
                allowRebuy = False, maxBuyAttempts = 0\<rparr>"

definition raydium_buy_message :: string where
  \<open>raydium_buy_message =
     ''{"type":"buy","maker_address":"W1","protocol":"Raydium V4","tokenName":"T","tokenAddress":"A"}''\<close>

definition anonymous_buy_message :: string where
  \<open>anonymous_buy_message =
     ''{"type":"buy","protocol":"Pump V1","tokenName":"T","tokenAddress":"A"}''\<close>

definition pump_buy_message :: string where
  \<open>pump_buy_message =
     ''{"type":"buy","maker_address":"W2","protocol":"Pump V1","tokenName":"T","tokenAddress":"A"}''\<close>


chapter \<open>Properties\<close>

section \<open>Arithmetic of the JavaScript operators\<close>

lemma math_floor_div_eq: "math_floor_div a b = a div b"
  by (simp add: math_floor_div_def floor_divide_of_int_eq)

declare math_floor_div_eq [code]

lemma js_rem_eq_0_iff: "js_rem a b = 0 \<longleftrightarrow> a mod b = 0"
  by (auto simp add: js_rem_def sgn_if dvd_eq_mod_eq_0 [symmetric])

lemma js_rem_nonneg: "0 \<le> a \<Longrightarrow> js_rem a b = a mod \<bar>b\<bar>"
  by (simp add: js_rem_def sgn_if)

lemma div_less_bound:
  assumes "0 < (T::int)" and "a < k * T"
  shows "a div T < k"
proof -
  have "T * (a div T) + a mod T = a" by simp
  moreover have "0 \<le> a mod T" using assms(1) by simp
  ultimately have "T * (a div T) \<le> a" by linarith
  then have "T * (a div T) < T * k" using assms(2) by (simp add: mult.commute)
  then show ?thesis using assms(1) by (simp add: mult_less_cancel_left_pos)
qed

lemma div_ge_bound:
  assumes "0 < (T::int)" and "k * T \<le> a"
  shows "k \<le> a div T"
proof -
  have "T * (a div T) + a mod T = a" by simp
  moreover have "a mod T < T" using assms(1) by simp
  ultimately have "a < T * (a div T) + T" by linarith
  then have "T * k < T * (a div T + 1)" using assms(2) by (simp add: mult.commute algebra_simps)
  then have "k < a div T + 1" using assms(1) by (simp add: mult_less_cancel_left_pos)
  then show ?thesis by simp
qed

lemma div_mod_shift:
  assumes "0 \<le> q mod 512 + d" and "q mod 512 + d < 512"
  shows "(q + d) div 512 = q div (512::int) \<and> (q + d) mod 512 = q mod 512 + d"
proof -
  have "q + d = 512 * (q div 512) + (q mod 512 + d)" by simp
  then show ?thesis using assms
    by (metis int_div_pos_eq int_mod_pos_eq)
qed


section \<open>The start index of a tick array\<close>

text \<open>
  What \<open>getArrayStartIndex\<close> computes, in terms of the flooring division: the floor of the
  quotient, lowered by one more array for a negative tick off an array boundary.
\<close>

lemma getArrayStartIndex_eq:
  "getArrayStartIndex t s =
     (if t < 0 \<and> t mod (60 * s) \<noteq> 0 then (t div (60 * s) - 1) * (60 * s)
      else (t div (60 * s)) * (60 * s))"
  by (simp add: getArrayStartIndex_def Let_def math_floor_div_eq js_rem_eq_0_iff
      tickCount_def TICK_ARRAY_SIZE_def)

lemma getArrayStartIndex_on_boundary:
  "0 < s \<Longrightarrow> getArrayStartIndex (k * (60 * s)) s = k * (60 * s)"
  by (simp add: getArrayStartIndex_eq)

lemma getArrayStartIndex_nonneg:
  "0 \<le> t \<Longrightarrow> getArrayStartIndex t s = (t div (60 * s)) * (60 * s)"
  by (simp add: getArrayStartIndex_eq)

text \<open>
  Claim C1.  The start index of the array that contains a tick is the tick floor-divided
  by the per-array tick count and multiplied back; for tick spacing 60 and tick \<open>-1\<close>
  that is \<open>-3600\<close>.  \<open>getArrayStartIndex\<close> floors with \<open>Math.floor\<close> and then lowers the
  quotient once more for a negative tick off a boundary: at spacing 60 and tick \<open>-1\<close> it
  returns \<open>-7200\<close>, the start of the array below the one that contains the tick.
\<close>

theorem getArrayStartIndex_minus_one:
  "getArrayStartIndex (- 1) 60 = - 7200 \<and> getArrayStartIndex (- 1) 60 \<noteq> - 3600"
  by (simp add: getArrayStartIndex_eq)


section \<open>The scan for the next initialized tick array\<close>

subsection \<open>A round that finds nothing moves on in the direction of the scan\<close>

lemma tickCount_pos: "0 < s \<Longrightarrow> 0 < tickCount s"
  by (simp add: tickCount_def TICK_ARRAY_SIZE_def)

lemma maxTick_eq: "maxTickInTickarrayBitmap s = 512 * tickCount s"
  by (simp add: maxTickInTickarrayBitmap_def tickCount_def TICK_ARRAY_SIZE_def
      TICK_ARRAY_BITMAP_SIZE_def)

lemma ticksInOneBitmap_eq:
  "s * TICK_ARRAY_SIZE * TICK_ARRAY_BITMAP_SIZE = 512 * tickCount s"
  by (simp add: tickCount_def TICK_ARRAY_SIZE_def TICK_ARRAY_BITMAP_SIZE_def)

text \<open>
  A miss in the inline bitmap leaves the index where it is or moves it to the far end of
  the inline range; either way the next array lies outside the inline range.
\<close>

lemma inline_miss:
  assumes "0 < s"
    and "nextInitializedTickArrayStartIndexInBitmap bm l0 s z = (False, l1)"
  shows "(if z then l1 \<le> l0 else l0 \<le> l1)
    \<and> (let n = (if z then l1 - tickCount s else l1 + tickCount s)
       in n < - maxTickInTickarrayBitmap s \<or> maxTickInTickarrayBitmap s \<le> n)"
proof -
  have tc: "0 < tickCount s" using assms(1) by (rule tickCount_pos)
  show ?thesis
    using assms(2) tc
    by (auto simp add: nextInitializedTickArrayStartIndexInBitmap_def Let_def maxTick_eq
        split: if_splits option.splits)
qed

lemma boundary_contains:
  assumes "0 < s" and "getBitmapTickBoundary n s = (bmin, bmax)"
  shows "bmin \<le> n \<and> n < bmax"
proof -
  define T where "T = s * TICK_ARRAY_SIZE * TICK_ARRAY_BITMAP_SIZE"
  define r where "r = \<bar>n\<bar> mod T"
  define p where "p = T * (\<bar>n\<bar> div T)"
  have T: "0 < T" using assms(1) by (simp add: T_def TICK_ARRAY_SIZE_def TICK_ARRAY_BITMAP_SIZE_def)
  have d: "\<bar>n\<bar> = p + r" by (simp add: p_def r_def)
  have m: "0 \<le> r" "r < T" using T by (simp_all add: r_def)
  have bounds: "(bmin, bmax) =
      (let m = (if n < 0 \<and> r \<noteq> 0 then \<bar>n\<bar> div T + 1 else \<bar>n\<bar> div T);
           minValue = T * m
       in if n < 0 then (- minValue, - minValue + T) else (minValue, minValue + T))"
    using assms(2) [symmetric] T
    by (auto simp add: getBitmapTickBoundary_def Let_def T_def [symmetric] math_floor_div_eq
        js_rem_nonneg r_def abs_of_pos split: if_splits)
  show ?thesis
  proof (cases "n < 0")
    case True
    then have n: "n = - (p + r)" using d by simp
    show ?thesis
    proof (cases "r = 0")
      case True
      then have "bmin = - p" "bmax = - p + T"
        using bounds \<open>n < 0\<close> by (simp_all add: p_def Let_def)
      then show ?thesis using n True T by simp
    next
      case False
      then have "bmin = - (p + T)" "bmax = - (p + T) + T"
        using bounds \<open>n < 0\<close> by (simp_all add: p_def Let_def algebra_simps)
      then show ?thesis using n False m by simp
    qed
  next
    case False
    then have n: "n = p + r" using d by simp
    have "bmin = p" "bmax = p + T" using bounds False by (simp_all add: p_def Let_def)
    then show ?thesis using n m by simp
  qed
qed

text \<open>A miss in the extension moves the index strictly on.\<close>

lemma ext_miss:
  assumes "0 < s"
    and "nextInitializedTickArrayFromOneBitmap l1 s z ext = Inr (False, l2)"
  shows "if z then l2 < l1 else l1 < l2"
proof -
  have tc: "0 < tickCount s" using assms(1) by (rule tickCount_pos)
  define n where "n = (if z then l1 - tickCount s else l1 + tickCount s)"
  obtain bmin bmax where b: "getBitmapTickBoundary n s = (bmin, bmax)"
    by (cases "getBitmapTickBoundary n s")
  have bc: "bmin \<le> n" "n < bmax" using boundary_contains [OF assms(1) b] by simp_all
  have "l2 = n \<or> (z \<and> l2 = bmin) \<or> (\<not> z \<and> l2 = bmax - tickCount s)"
    using assms(2) b
    by (auto simp add: nextInitializedTickArrayFromOneBitmap_def
        nextInitializedTickArrayInBitmap_def Let_def n_def
        split: if_splits prod.splits option.splits)
  then show ?thesis using bc tc by (auto simp add: n_def split: if_splits)
qed

subsection \<open>The loop returns: a rule of total correctness\<close>

text \<open>
  The distance of the index from the tick bound in the direction of the scan decreases
  with every round that goes on.  The rule also carries an invariant \<open>I\<close> of the index at
  the head of a round, a property \<open>J\<close> of the index between the two scans of a round, and
  a property \<open>Q\<close> of the result.
\<close>

lemma scan_loop_rule:
  assumes s: "0 < s"
    and inv0: "I l0"
    and inline_found: "\<And>l i. I l \<Longrightarrow>
        nextInitializedTickArrayStartIndexInBitmap (u1024FromList bm) l s z = (True, i) \<Longrightarrow>
        Q (Inr (Some i, l))"
    and inline_missed: "\<And>l l1. I l \<Longrightarrow>
        nextInitializedTickArrayStartIndexInBitmap (u1024FromList bm) l s z = (False, l1) \<Longrightarrow>
        J l1"
    and ext_error: "\<And>l1 e. J l1 \<Longrightarrow>
        nextInitializedTickArrayFromOneBitmap l1 s z ext = Inl e \<Longrightarrow> Q (Inl e)"
    and ext_found: "\<And>l1 i. J l1 \<Longrightarrow>
        nextInitializedTickArrayFromOneBitmap l1 s z ext = Inr (True, i) \<Longrightarrow>
        Q (Inr (Some i, l1))"
    and ext_missed: "\<And>l1 l2. J l1 \<Longrightarrow>
        nextInitializedTickArrayFromOneBitmap l1 s z ext = Inr (False, l2) \<Longrightarrow> I l2"
    and exhausted: "\<And>l2. l2 < MIN_TICK \<or> l2 > MAX_TICK \<Longrightarrow> Q (Inr (None, l2))"
  shows "\<exists>r. scan_loop bm ext l0 s z = Some r \<and> Q r"
  using inv0
proof (induction "nat (if z then l0 - MIN_TICK else MAX_TICK - l0)" arbitrary: l0 rule: less_induct)
  case less
  obtain found l1 where
    i: "nextInitializedTickArrayStartIndexInBitmap (u1024FromList bm) l0 s z = (found, l1)"
    by (cases "nextInitializedTickArrayStartIndexInBitmap (u1024FromList bm) l0 s z")
  show ?case
  proof (cases found)
    case True
    then have "Q (Inr (Some l1, l0))" using inline_found [OF less.prems] i by simp
    then show ?thesis using i True by (subst scan_loop.simps) simp
  next
    case nf: False
    have i': "nextInitializedTickArrayStartIndexInBitmap (u1024FromList bm) l0 s z = (False, l1)"
      using i nf by simp
    have J: "J l1" using inline_missed [OF less.prems i'] .
    have m1: "if z then l1 \<le> l0 else l0 \<le> l1" using inline_miss [OF s i'] by simp
    show ?thesis
    proof (cases "nextInitializedTickArrayFromOneBitmap l1 s z ext")
      case (Inl e)
      then have "Q (Inl e)" using ext_error [OF J] by simp
      then show ?thesis using i nf Inl by (subst scan_loop.simps) simp
    next
      case (Inr p)
      obtain found2 l2 where p: "p = (found2, l2)" by (cases p)
      show ?thesis
      proof (cases found2)
        case True
        then have "Q (Inr (Some l2, l1))" using ext_found [OF J] Inr p by simp
        then show ?thesis using i nf Inr p True by (subst scan_loop.simps) simp
      next
        case nf2: False
        have e': "nextInitializedTickArrayFromOneBitmap l1 s z ext = Inr (False, l2)"
          using Inr p nf2 by simp
        have m2: "if z then l2 < l1 else l1 < l2" using ext_miss [OF s e'] .
        show ?thesis
        proof (cases "l2 < MIN_TICK \<or> l2 > MAX_TICK")
          case True
          then have "Q (Inr (None, l2))" by (rule exhausted)
          then show ?thesis using i nf e' True by (subst scan_loop.simps) simp
        next
          case False
          have "nat (if z then l2 - MIN_TICK else MAX_TICK - l2)
                  < nat (if z then l0 - MIN_TICK else MAX_TICK - l0)"
            using m1 m2 False by (auto split: if_splits)
          from less.hyps [OF this ext_missed [OF J e']]
          obtain r where "scan_loop bm ext l2 s z = Some r" "Q r" by blast
          then show ?thesis using i nf e' False by (subst scan_loop.simps) simp
        qed
      qed
    qed
  qed
qed

text \<open>
  For a positive tick spacing the loop returns on every input, whatever the bitmaps hold
  and however short the extension is (a missing segment ends it with the exception).
\<close>

lemma scan_loop_returns:
  assumes "0 < s"
  shows "\<exists>r. scan_loop bm ext l0 s z = Some r"
  using scan_loop_rule [OF assms, where I = "\<lambda>_. True" and J = "\<lambda>_. True" and Q = "\<lambda>_. True"]
  by simp

lemma nextInitializedTickArrayStartIndex_returns:
  assumes "0 < s"
  shows "\<exists>r. nextInitializedTickArrayStartIndex bm ext t s z = Some r"
  using scan_loop_returns [OF assms, of bm ext "getArrayStartIndex t s" z]
  by (auto simp add: nextInitializedTickArrayStartIndex_def)


subsection \<open>A parsed extension always has the segment that is asked for\<close>

lemma getArrayStartIndex_cases:
  "getArrayStartIndex t s = tickCount s * (t div tickCount s)
   \<or> getArrayStartIndex t s = tickCount s * (t div tickCount s) - tickCount s"
  by (simp add: getArrayStartIndex_def Let_def math_floor_div_eq algebra_simps)

lemma start_bounds:
  assumes "0 < s"
  shows "getArrayStartIndex MAX_TICK s \<le> MAX_TICK"
    and "MIN_TICK - 2 * tickCount s < getArrayStartIndex MIN_TICK s"
proof -
  have c: "0 < tickCount s" using assms by (rule tickCount_pos)
  define p where "p t = tickCount s * (t div tickCount s)" for t
  have d: "p t + t mod tickCount s = t" for t by (simp add: p_def)
  have m: "0 \<le> t mod tickCount s" "t mod tickCount s < tickCount s" for t using c by simp_all
  have g: "getArrayStartIndex t s = p t \<or> getArrayStartIndex t s = p t - tickCount s" for t
    unfolding p_def by (rule getArrayStartIndex_cases)
  show "getArrayStartIndex MAX_TICK s \<le> MAX_TICK"
    using g [of MAX_TICK] d [of MAX_TICK] m [of MAX_TICK] c by linarith
  show "MIN_TICK - 2 * tickCount s < getArrayStartIndex MIN_TICK s"
    using g [of MIN_TICK] d [of MIN_TICK] m [of MIN_TICK] c by linarith
qed

lemma getBitmap_in_range:
  assumes s: "0 < s" and len: "14 \<le> length pos" "14 \<le> length neg"
    and out: "n < - maxTickInTickarrayBitmap s \<or> maxTickInTickarrayBitmap s \<le> n"
    and lo: "getArrayStartIndex MIN_TICK s \<le> n" and hi: "n \<le> getArrayStartIndex MAX_TICK s"
  shows "\<exists>off seg. getBitmap n s pos neg = (off, Some seg)"
proof -
  define T where "T = s * TICK_ARRAY_SIZE * TICK_ARRAY_BITMAP_SIZE"
  have T: "0 < T" "T = 30720 * s"
    using s by (simp_all add: T_def TICK_ARRAY_SIZE_def TICK_ARRAY_BITMAP_SIZE_def)
  have B: "maxTickInTickarrayBitmap s = T"
    by (simp add: maxTickInTickarrayBitmap_def T_def)
  have s1: "1 \<le> s" using s by simp
  show ?thesis
  proof (cases "n < 0")
    case True
    define a where "a = \<bar>n\<bar>"
    have a: "a = - n" "T < a" using True out B T by (simp_all add: a_def)
    have "a < 443636 + 120 * s" using lo start_bounds(2) [OF s] a
      by (simp add: MIN_TICK_def tickCount_def TICK_ARRAY_SIZE_def)
    also have "\<dots> < 15 * T" using T s1 by simp
    finally have up: "a div T < 15" using div_less_bound [OF T(1)] by simp
    have lo1: "1 \<le> a div T" using div_ge_bound [OF T(1), of 1 a] a by simp
    have lo2: "2 \<le> a div T" if "a mod T = 0"
    proof -
      have "T * (a div T) = a" using that mult_div_mod_eq [of T a] by simp
      then have "T * 1 < T * (a div T)" using a by simp
      then have "1 < a div T" using T(1) by (simp only: mult_less_cancel_left_pos)
      then show ?thesis by simp
    qed
    define off where "off = (if a mod T = 0 then a div T - 2 else a div T - 1)"
    have off: "0 \<le> off" "off < 14" using up lo1 lo2 by (auto simp add: off_def)
    have "getBitmap n s pos neg = (off, js_index neg off)"
      using True T(1)
      by (simp add: getBitmap_def Let_def T_def [symmetric] a_def [symmetric] off_def
          math_floor_div_eq js_rem_eq_0_iff)
    moreover have "js_index neg off = Some (neg ! nat off)"
      using off len by (simp add: js_index_def)
    ultimately show ?thesis by simp
  next
    case False
    then have n: "T \<le> n" "\<bar>n\<bar> = n" using out B T by simp_all
    have "n \<le> 443636" using hi start_bounds(1) [OF s] by (simp add: MAX_TICK_def)
    also have "\<dots> < 15 * T" using T s1 by simp
    finally have up: "n div T < 15" using div_less_bound [OF T(1)] by simp
    have lo1: "1 \<le> n div T" using div_ge_bound [OF T(1), of 1 n] n by simp
    define off where "off = n div T - 1"
    have off: "0 \<le> off" "off < 14" using up lo1 by (auto simp add: off_def)
    have "getBitmap n s pos neg = (off, js_index pos off)"
      using False n
      by (simp add: getBitmap_def Let_def T_def [symmetric] off_def math_floor_div_eq)
    moreover have "js_index pos off = Some (pos ! nat off)"
      using off len by (simp add: js_index_def)
    ultimately show ?thesis by simp
  qed
qed

lemma ext_no_error:
  assumes s: "0 < s" and len: "14 \<le> length pos" "14 \<le> length neg"
    and out: "let n = (if z then l1 - tickCount s else l1 + tickCount s)
              in n < - maxTickInTickarrayBitmap s \<or> maxTickInTickarrayBitmap s \<le> n"
  shows "nextInitializedTickArrayFromOneBitmap l1 s z (pos, neg) \<noteq> Inl e"
proof -
  define n where "n = (if z then l1 - tickCount s else l1 + tickCount s)"
  have out': "n < - maxTickInTickarrayBitmap s \<or> maxTickInTickarrayBitmap s \<le> n"
    using out by (simp add: n_def Let_def)
  show ?thesis
  proof (cases "n < getArrayStartIndex MIN_TICK s \<or> n > getArrayStartIndex MAX_TICK s")
    case True
    then show ?thesis
      by (simp add: nextInitializedTickArrayFromOneBitmap_def Let_def n_def [symmetric])
  next
    case False
    then obtain off seg where "getBitmap n s pos neg = (off, Some seg)"
      using getBitmap_in_range [OF s len out'] by auto
    then show ?thesis using False
      by (simp add: nextInitializedTickArrayFromOneBitmap_def Let_def n_def [symmetric]
          nextInitializedTickArrayInBitmap_def split: prod.splits option.splits)
  qed
qed

subsection \<open>The highest and the lowest set bit\<close>

lemma bit_length_pos: "0 < x \<Longrightarrow> bit_length x = 1 + bit_length (x div 2)"
  by (subst bit_length.simps) simp

lemma bit_length_nonpos: "x \<le> 0 \<Longrightarrow> bit_length x = 0"
  by (subst bit_length.simps) simp

lemma bit_length_top:
  "0 < x \<Longrightarrow> 0 < bit_length x \<and> bit x (nat (bit_length x - 1))"
proof (induction x rule: bit_length.induct)
  case (1 x)
  show ?case
  proof (cases "x div 2 = 0")
    case True
    then have "x = 1" using "1.prems" by presburger
    then show ?thesis by (simp add: bit_length_pos bit_length_nonpos)
  next
    case False
    then have h: "0 < x div 2" using "1.prems" by presburger
    have ih: "0 < bit_length (x div 2)" "bit (x div 2) (nat (bit_length (x div 2) - 1))"
      using "1.IH" h "1.prems" by simp_all
    have "nat (bit_length x - 1) = Suc (nat (bit_length (x div 2) - 1))"
      using ih(1) "1.prems" by (simp add: bit_length_pos)
    then show ?thesis using ih "1.prems" by (simp add: bit_length_pos bit_Suc)
  qed
qed

lemma bit_length_power: "bit_length (2 ^ k) = int k + 1"
proof (induction k)
  case 0
  then show ?case by (simp add: bit_length_pos bit_length_nonpos)
next
  case (Suc k)
  then show ?case by (simp add: bit_length_pos)
qed

lemma binary_digits_pos: "0 < x \<Longrightarrow> binary_digits x = bit_length x"
  by (simp add: binary_digits_def)

text \<open>\<open>x & -x\<close> isolates the lowest set bit.\<close>

lemma and_neg_lowest:
  fixes x :: int
  assumes "x \<noteq> 0"
  shows "\<exists>k. x AND - x = 2 ^ k \<and> bit x k"
  using assms
proof (induction x rule: int_bit_induct)
  case zero
  then show ?case by simp
next
  case minus
  show ?case by (rule exI [of _ 0]) simp
next
  case (even k)
  then obtain j where j: "k AND - k = 2 ^ j" "bit k j" by auto
  have d: "(- (2 * k)) div 2 = - k" by simp
  have "(2 * k) AND - (2 * k) = 2 * (k AND - k)"
    by (subst and_int.rec) (simp add: d)
  then have "(2 * k) AND - (2 * k) = 2 ^ Suc j" using j by simp
  moreover have "bit (2 * k) (Suc j)" using j by (simp add: bit_Suc)
  ultimately have "\<exists>i. (2 * k) AND - (2 * k) = 2 ^ i \<and> bit (2 * k) i" by blast
  then show ?case by (simp add: mult.commute)
next
  case (odd k)
  have d: "(- 1 - 2 * k) div 2 = NOT k" by (simp add: not_int_def)
  have "(1 + 2 * k) AND - (1 + 2 * k) = 1 + 2 * (k AND NOT k)"
    by (subst and_int.rec) (simp add: d)
  then have "(1 + 2 * k) AND - (1 + 2 * k) = (2::int) ^ 0" by simp
  moreover have "bit (1 + 2 * k) 0" by (simp add: bit_0)
  ultimately have "\<exists>i. (1 + 2 * k) AND - (1 + 2 * k) = 2 ^ i \<and> bit (1 + 2 * k) i" by blast
  then show ?case by (simp add: mult.commute)
qed

lemma leastSignificantBit_Some:
  assumes "leastSignificantBit x = Some nb"
  shows "0 \<le> nb \<and> bit x (nat nb)"
proof -
  have x: "x \<noteq> 0" "nb = binary_digits (x AND - x) - 1"
    using assms by (auto simp add: leastSignificantBit_def split: if_splits)
  obtain k where k: "x AND - x = 2 ^ k" "bit x k" using and_neg_lowest [OF x(1)] by blast
  have "nb = int k" using x(2) k(1) by (simp add: binary_digits_pos bit_length_power)
  then show ?thesis using k(2) by simp
qed

lemma mostSignificantBit_Some:
  assumes "mostSignificantBit x = Some nb" and "0 \<le> x"
  shows "nb \<le> TOTAL_BITS - 1 \<and> bit x (nat (TOTAL_BITS - 1 - nb))"
proof -
  have x: "0 < x" "nb = TOTAL_BITS - bit_length x"
    using assms by (auto simp add: mostSignificantBit_def binary_digits_pos split: if_splits)
  have t: "0 < bit_length x" "bit x (nat (bit_length x - 1))"
    using bit_length_top [OF x(1)] by simp_all
  have e: "TOTAL_BITS - 1 - nb = bit_length x - 1" using x(2) by simp
  show ?thesis unfolding e using t x(2) by simp
qed

lemma trailing_zeros_bit:
  assumes "x \<noteq> 0"
  shows "0 \<le> u512TrailingZeros x \<and> bit x (nat (u512TrailingZeros x))"
proof -
  have "leastSignificantBit x = Some (u512TrailingZeros x)"
    using assms by (simp add: leastSignificantBit_def u512TrailingZeros_def)
  then show ?thesis by (rule leastSignificantBit_Some)
qed

lemma leading_zeros_bit:
  assumes "0 < x"
  shows "u512LeadingZeros x \<le> 511 \<and> bit x (nat (511 - u512LeadingZeros x))"
proof -
  have t: "0 < bit_length x" "bit x (nat (bit_length x - 1))"
    using bit_length_top [OF assms] by simp_all
  have e: "u512LeadingZeros x = 512 - bit_length x"
    using assms by (simp add: u512LeadingZeros_def binary_digits_pos)
  have e': "511 - u512LeadingZeros x = bit_length x - 1" using e by simp
  show ?thesis unfolding e' using t e by simp
qed

lemma mask_nonneg: "0 \<le> U1024_MASK"
  by (simp add: U1024_MASK_def bigint_shl_def TOTAL_BITS_def)

lemma bit_bigint_shl:
  assumes "bit (bigint_shl b sh) p"
  shows "0 \<le> int p - sh \<and> bit b (nat (int p - sh))"
proof (cases "0 \<le> sh")
  case True
  then have "nat sh \<le> p" "bit b (p - nat sh)"
    using assms by (simp_all add: bigint_shl_def bit_push_bit_iff)
  moreover have "nat (int p - sh) = p - nat sh" using True by simp
  ultimately show ?thesis using True by simp
next
  case False
  then have "bit b (p + nat (- sh))"
    using assms by (simp add: bigint_shl_def bit_drop_bit_eq add.commute)
  moreover have "nat (int p - sh) = p + nat (- sh)" using False by simp
  ultimately show ?thesis using False by simp
qed

lemma bit_bigint_shr:
  assumes "bit (bigint_shr b sh) k" and "0 \<le> sh"
  shows "bit b (nat (sh + int k))"
proof -
  have "bit b (nat sh + k)" using assms by (simp add: bigint_shr_def bit_drop_bit_eq)
  moreover have "nat (sh + int k) = nat sh + k" using assms(2) by simp
  ultimately show ?thesis by simp
qed

lemma bit_bounded:
  fixes u :: int
  assumes "0 \<le> u" "u < 2 ^ n" "bit u j"
  shows "j < n"
proof (rule ccontr)
  assume "\<not> j < n"
  then have "(2::int) ^ n \<le> 2 ^ j" by (intro power_increasing) simp_all
  with assms(2) have "u < 2 ^ j" by (rule less_le_trans)
  then have "u div 2 ^ j = 0" using assms(1) by simp
  then show False using assms(3) by (simp add: bit_iff_odd)
qed


subsection \<open>An index found in the inline bitmap has its bit set\<close>

lemma check_current_at:
  assumes "0 < s" and "0 \<le> c" and "bit bm (nat c)"
  shows "checkCurrentTickArrayIsInitialized bm ((c - 512) * (s * TICK_ARRAY_SIZE)) s
           = (True, (c - 512) * (s * TICK_ARRAY_SIZE))"
proof -
  define m where "m = s * TICK_ARRAY_SIZE"
  have m: "0 < m" using assms(1) by (simp add: m_def TICK_ARRAY_SIZE_def)
  have "bm AND push_bit (nat c) 1 \<noteq> 0"
    using assms(3) by (simp add: bit_iff_and_push_bit_not_eq_0)
  then show ?thesis
    using m assms(2)
    by (simp add: checkCurrentTickArrayIsInitialized_def Let_def m_def [symmetric]
        math_floor_div_eq js_rem_eq_0_iff bigint_shl_def)
qed

lemma inline_found_initialized:
  assumes s: "0 < s"
    and f: "nextInitializedTickArrayStartIndexInBitmap bm l s z = (True, i)"
  shows "checkCurrentTickArrayIsInitialized bm i s = (True, i)"
proof -
  let ?m = "s * TICK_ARRAY_SIZE"
  let ?n = "if z then l - tickCount s else l + tickCount s"
  let ?c = "if ?n < 0 \<and> js_rem ?n ?m \<noteq> 0 then math_floor_div ?n ?m + 512 - 1
            else math_floor_div ?n ?m + 512"
  let ?bp = "\<bar>?c\<bar>"
  let ?xd = "bigint_shl (bm AND U1024_MASK) (TOTAL_BITS - ?bp - 1) AND U1024_MASK"
  let ?xu = "bigint_shr (bm AND U1024_MASK) ?bp"
  have g: "(if ?n < - maxTickInTickarrayBitmap s \<or> ?n \<ge> maxTickInTickarrayBitmap s
            then (False, l)
            else if z
              then (case mostSignificantBit ?xd of
                      Some nextBit \<Rightarrow> (True, (?bp - nextBit - 512) * ?m)
                    | None \<Rightarrow> (False, - maxTickInTickarrayBitmap s))
              else (case leastSignificantBit ?xu of
                      Some nextBit \<Rightarrow> (True, (?bp + nextBit - 512) * ?m)
                    | None \<Rightarrow> (False, maxTickInTickarrayBitmap s - tickCount s))) = (True, i)"
    using f unfolding nextInitializedTickArrayStartIndexInBitmap_def Let_def .
  have bp: "0 \<le> ?bp" by simp
  show ?thesis
  proof (cases z)
    case True
    have "\<exists>nb. mostSignificantBit ?xd = Some nb \<and> i = (?bp - nb - 512) * ?m"
      using g True by (cases "mostSignificantBit ?xd") (auto split: if_splits)
    then obtain nb where nb: "mostSignificantBit ?xd = Some nb" "i = (?bp - nb - 512) * ?m"
      by blast
    have "0 \<le> ?xd" using mask_nonneg by simp
    from mostSignificantBit_Some [OF nb(1) this]
    have p: "nb \<le> TOTAL_BITS - 1" "bit ?xd (nat (TOTAL_BITS - 1 - nb))" by simp_all
    define p where "p = nat (TOTAL_BITS - 1 - nb)"
    have pn: "int p = TOTAL_BITS - 1 - nb" using p(1) by (simp add: p_def)
    have "bit (bigint_shl (bm AND U1024_MASK) (TOTAL_BITS - ?bp - 1)) p"
      using p(2) unfolding p_def [symmetric] by (simp only: bit_and_iff)
    from bit_bigint_shl [OF this]
    have c: "0 \<le> int p - (TOTAL_BITS - ?bp - 1)"
      "bit (bm AND U1024_MASK) (nat (int p - (TOTAL_BITS - ?bp - 1)))" by simp_all
    have ceq: "int p - (TOTAL_BITS - ?bp - 1) = ?bp - nb" using pn by simp
    have "bit bm (nat (?bp - nb))" using c(2) unfolding ceq by (simp only: bit_and_iff)
    moreover have "0 \<le> ?bp - nb" using c(1) unfolding ceq .
    ultimately show ?thesis
      using check_current_at [OF s, of "?bp - nb" bm] unfolding nb(2) by simp
  next
    case False
    have "\<exists>nb. leastSignificantBit ?xu = Some nb \<and> i = (?bp + nb - 512) * ?m"
      using g False by (cases "leastSignificantBit ?xu") (auto split: if_splits)
    then obtain nb where nb: "leastSignificantBit ?xu = Some nb" "i = (?bp + nb - 512) * ?m"
      by blast
    from leastSignificantBit_Some [OF nb(1)]
    have k: "0 \<le> nb" "bit ?xu (nat nb)" by simp_all
    have "bit (bm AND U1024_MASK) (nat (?bp + int (nat nb)))"
      by (rule bit_bigint_shr [OF k(2) bp])
    then have "bit bm (nat (?bp + nb))" using k(1) by (simp only: bit_and_iff int_nat_eq if_True)
    moreover have "0 \<le> ?bp + nb" using k(1) bp by linarith
    ultimately show ?thesis
      using check_current_at [OF s, of "?bp + nb" bm] unfolding nb(2) by simp
  qed
qed

subsection \<open>The scanned indices are array starts\<close>

lemma aligned_start: "aligned s (getArrayStartIndex t s)"
  by (simp add: aligned_def getArrayStartIndex_def Let_def)

lemma inline_miss_aligned:
  assumes "aligned s l"
    and "nextInitializedTickArrayStartIndexInBitmap bm l s z = (False, l1)"
  shows "aligned s l1"
  using assms
  by (auto simp add: nextInitializedTickArrayStartIndexInBitmap_def Let_def maxTick_eq
      aligned_def split: if_splits option.splits)

lemma boundary_aligned:
  assumes "getBitmapTickBoundary n s = (bmin, bmax)"
  shows "aligned s bmin \<and> aligned s bmax"
  using assms
  by (auto simp add: getBitmapTickBoundary_def Let_def ticksInOneBitmap_eq aligned_def
      split: if_splits)

lemma ext_miss_aligned:
  assumes "aligned s l1"
    and "nextInitializedTickArrayFromOneBitmap l1 s z ext = Inr (False, l2)"
  shows "aligned s l2"
proof -
  define n where "n = (if z then l1 - tickCount s else l1 + tickCount s)"
  obtain bmin bmax where b: "getBitmapTickBoundary n s = (bmin, bmax)"
    by (cases "getBitmapTickBoundary n s")
  have n: "aligned s n" using assms(1) by (simp add: n_def aligned_def)
  have "l2 = n \<or> (z \<and> l2 = bmin) \<or> (\<not> z \<and> l2 = bmax - tickCount s)"
    using assms(2) b
    by (auto simp add: nextInitializedTickArrayFromOneBitmap_def
        nextInitializedTickArrayInBitmap_def Let_def n_def
        split: if_splits prod.splits option.splits)
  then show ?thesis using n boundary_aligned [OF b] by (auto simp add: aligned_def)
qed

text \<open>
  For the start \<open>q * tickCount s\<close> of the \<open>q\<close>-th array, the bit within its segment is
  \<open>q mod 512\<close> and the segment is fixed by \<open>q div 512\<close>, on either side of zero.
\<close>

lemma calc_offset_aligned:
  assumes s: "0 < s"
  shows "calcTickArrayOffsetInBitmap (q * tickCount s) s = q mod 512"
proof -
  define c where "c = tickCount s"
  have c: "0 < c" using s by (simp add: c_def tickCount_pos)
  have abs: "\<bar>q * c\<bar> = \<bar>q\<bar> * c" using c by (simp add: abs_mult)
  have m: "js_rem \<bar>q * c\<bar> (512 * c) = (\<bar>q\<bar> mod 512) * c"
    using c by (simp add: js_rem_nonneg abs mult_mod_left)
  have dv: "math_floor_div ((\<bar>q\<bar> mod 512) * c) c = \<bar>q\<bar> mod 512"
    using c by (simp add: math_floor_div_eq)
  have neg: "q * c < 0 \<longleftrightarrow> q < 0" using c by (simp add: mult_less_0_iff)
  have z: "(\<bar>q\<bar> mod 512) * c = 0 \<longleftrightarrow> \<bar>q\<bar> mod 512 = 0" using c by simp
  have e: "calcTickArrayOffsetInBitmap (q * c) s =
      (if q < 0 \<and> \<bar>q\<bar> mod 512 \<noteq> 0 then 512 - \<bar>q\<bar> mod 512 else \<bar>q\<bar> mod 512)"
    unfolding calcTickArrayOffsetInBitmap_def Let_def ticksInOneBitmap_eq
    unfolding c_def [symmetric] m tickCount_def [symmetric] dv neg z TICK_ARRAY_BITMAP_SIZE_def
    by (simp add: c_def tickCount_def mult.commute)
  show ?thesis
  proof (cases "q < 0")
    case True
    then have a: "\<bar>q\<bar> = - q" by simp
    have "q mod 512 < 512" by simp
    then show ?thesis unfolding c_def [symmetric] e a using True
      by (auto simp add: zmod_zminus1_eq_if)
  next
    case False
    then show ?thesis unfolding c_def [symmetric] e by simp
  qed
qed

lemma getBitmap_aligned:
  assumes s: "0 < s"
  shows "getBitmap (q * tickCount s) s pos neg =
     (if q < 0 then (- (q div 512) - 2, js_index neg (- (q div 512) - 2))
      else (q div 512 - 1, js_index pos (q div 512 - 1)))"
proof -
  define c where "c = tickCount s"
  have c: "0 < c" using s by (simp add: c_def tickCount_pos)
  have abs: "\<bar>q * c\<bar> = \<bar>q\<bar> * c" using c by (simp add: abs_mult)
  have dv: "math_floor_div (\<bar>q\<bar> * c) (512 * c) = \<bar>q\<bar> div 512"
    using c by (simp add: math_floor_div_eq)
  have m: "js_rem (\<bar>q\<bar> * c) (512 * c) = 0 \<longleftrightarrow> \<bar>q\<bar> mod 512 = 0"
    using c by (simp add: js_rem_eq_0_iff mult_mod_left)
  have neg: "q * c < 0 \<longleftrightarrow> q < 0" using c by (simp add: mult_less_0_iff)
  have e: "getBitmap (q * c) s pos neg =
     (let offset = (if q < 0 \<and> \<bar>q\<bar> mod 512 = 0 then \<bar>q\<bar> div 512 - 1 - 1 else \<bar>q\<bar> div 512 - 1)
      in if q < 0 then (offset, js_index neg offset) else (offset, js_index pos offset))"
    unfolding getBitmap_def Let_def ticksInOneBitmap_eq c_def [symmetric] abs dv m neg ..
  show ?thesis
  proof (cases "q < 0")
    case True
    then have a: "\<bar>q\<bar> = - q" by simp
    have "(if (- q) mod 512 = 0 then (- q) div 512 - 1 - 1 else (- q) div 512 - 1)
            = - (q div 512) - 2"
      by (auto simp add: zdiv_zminus1_eq_if zmod_zminus1_eq_if)
    then show ?thesis unfolding c_def [symmetric] e a Let_def using True by simp
  next
    case False
    then show ?thesis unfolding c_def [symmetric] e Let_def by simp
  qed
qed

subsection \<open>An index found in the extension has its bit set\<close>

lemma or_shifted_bound:
  assumes "0 \<le> i" "i + int (length ws) \<le> 8" "0 \<le> v" "v < 2 ^ 512"
    and "\<forall>w \<in> set ws. 0 \<le> w \<and> w < 2 ^ 64"
  shows "0 \<le> or_shifted (\<lambda>i. (7 - i) * 64) i ws v
         \<and> or_shifted (\<lambda>i. (7 - i) * 64) i ws v < 2 ^ 512"
  using assms
proof (induction ws arbitrary: i v)
  case Nil
  then show ?case by simp
next
  case (Cons w ws)
  have w: "0 \<le> w" "w < 2 ^ 64" using Cons.prems(5) by simp_all
  have i7: "i \<le> 7" using Cons.prems(2) by simp
  define k where "k = nat ((7 - i) * 64)"
  have k: "k + 64 \<le> 512" using Cons.prems(1) i7 by (simp add: k_def)
  have sh: "bigint_shl w ((7 - i) * 64) = push_bit k w"
    using i7 by (simp add: bigint_shl_def k_def)
  have "push_bit k w < 2 ^ (k + 64)"
    using w by (simp add: push_bit_eq_mult power_add)
  also have "\<dots> \<le> (2::int) ^ 512" using k by (intro power_increasing) simp_all
  finally have b: "push_bit k w < 2 ^ 512" .
  have nn: "0 \<le> push_bit k w" using w by simp
  have v1: "0 \<le> v OR push_bit k w" using Cons.prems(3) nn by simp
  have v2: "v OR push_bit k w < 2 ^ 512" using Cons.prems(3,4) b by (rule OR_upper)
  have "0 \<le> or_shifted (\<lambda>i. (7 - i) * 64) (i + 1) ws (v OR push_bit k w)
        \<and> or_shifted (\<lambda>i. (7 - i) * 64) (i + 1) ws (v OR push_bit k w) < 2 ^ 512"
    by (rule Cons.IH) (use Cons.prems v1 v2 in auto)
  then show ?case unfolding or_shifted.simps sh .
qed

lemma u512_bound:
  assumes "u64_words ws"
  shows "0 \<le> or_shifted (\<lambda>i. (7 - i) * 64) 0 ws 0
         \<and> or_shifted (\<lambda>i. (7 - i) * 64) 0 ws 0 < 2 ^ 512"
  by (rule or_shifted_bound) (use assms in \<open>auto simp add: u64_words_def\<close>)

lemma js_index_Some: "js_index xs i = Some x \<Longrightarrow> x \<in> set xs"
  by (auto simp add: js_index_def split: if_splits)

lemma check_ext_at:
  assumes "getBitmap n s pos neg = (off, Some words)"
    and "calcTickArrayOffsetInBitmap n s = o'" and "0 \<le> o'"
    and "bit (or_shifted (\<lambda>i. (7 - i) * 64) 0 words 0) (nat o')"
  shows "checkTickArrayIsInitialized n s (pos, neg) = Inr (True, n)"
proof -
  let ?u = "or_shifted (\<lambda>i. (7 - i) * 64) 0 words 0"
  have "odd (drop_bit (nat o') ?u)" using assms(4) by (simp add: bit_iff_odd_drop_bit)
  then have "bigint_shr ?u o' AND 1 = 1"
    using assms(3) by (simp add: bigint_shr_def and_one_eq mod_2_eq_odd)
  then show ?thesis
    using assms(1,2) by (simp add: checkTickArrayIsInitialized_def Let_def)
qed

lemma ext_found_initialized:
  assumes s: "0 < s" and al: "aligned s l1"
    and wf: "\<forall>seg \<in> set pos \<union> set neg. u64_words seg"
    and f: "nextInitializedTickArrayFromOneBitmap l1 s z (pos, neg) = Inr (True, i)"
  shows "checkTickArrayIsInitialized i s (pos, neg) = Inr (True, i)"
proof -
  define c where "c = tickCount s"
  have c: "0 < c" using s by (simp add: c_def tickCount_pos)
  define n where "n = (if z then l1 - c else l1 + c)"
  have "c dvd n" using al by (simp add: n_def aligned_def c_def)
  then obtain q where q: "n = q * c" by (auto simp add: dvd_def mult.commute)
  obtain off seg where gb: "getBitmap n s pos neg = (off, seg)"
    by (cases "getBitmap n s pos neg")
  have f': "nextInitializedTickArrayInBitmap seg n s z = Inr (True, i)"
    using f gb
    by (auto simp add: nextInitializedTickArrayFromOneBitmap_def Let_def n_def c_def
        split: if_splits)
  then obtain words where words: "seg = Some words"
    by (cases seg) (auto simp add: nextInitializedTickArrayInBitmap_def Let_def
        split: prod.splits)
  have gq: "getBitmap (q * c) s pos neg =
     (if q < 0 then (- (q div 512) - 2, js_index neg (- (q div 512) - 2))
      else (q div 512 - 1, js_index pos (q div 512 - 1)))"
    unfolding c_def by (rule getBitmap_aligned [OF s])
  have "words \<in> set pos \<union> set neg"
    using gb gq words q by (auto dest: js_index_Some split: if_splits)
  then have ww: "u64_words words" using wf by blast
  let ?u = "or_shifted (\<lambda>i. (7 - i) * 64) 0 words 0"
  have u: "0 \<le> ?u" "?u < 2 ^ 512" using u512_bound [OF ww] by simp_all
  define o' where "o' = q mod 512"
  have o: "calcTickArrayOffsetInBitmap n s = o'" "0 \<le> o'" "o' < 512"
    using calc_offset_aligned [OF s, of q] by (simp_all add: q c_def o'_def)
  have step: "checkTickArrayIsInitialized ((q + d) * c) s (pos, neg) = Inr (True, (q + d) * c)"
    if d: "0 \<le> o' + d" "bit ?u (nat (o' + d))" for d
  proof -
    have "o' + d < 512" using bit_bounded [OF u d(2)] d(1) by simp
    with d(1) have dm: "(q + d) div 512 = q div 512" "(q + d) mod 512 = o' + d"
      using div_mod_shift [of q d] by (simp_all add: o'_def)
    have sg: "q + d < 0 \<longleftrightarrow> q < 0"
      using dm(1) by (metis neg_imp_zdiv_neg_iff pos_imp_zdiv_neg_iff zero_less_numeral)
    have "getBitmap ((q + d) * c) s pos neg = getBitmap (q * c) s pos neg"
      unfolding gq unfolding c_def getBitmap_aligned [OF s] dm(1) sg ..
    then have g1: "getBitmap ((q + d) * c) s pos neg = (off, Some words)"
      using gb q words by simp
    have g2: "calcTickArrayOffsetInBitmap ((q + d) * c) s = o' + d"
      using calc_offset_aligned [OF s, of "q + d"] dm(2) by (simp add: c_def)
    show ?thesis by (rule check_ext_at [OF g1 g2 d])
  qed
  obtain bmin bmax where b: "getBitmapTickBoundary n s = (bmin, bmax)"
    by (cases "getBitmapTickBoundary n s")
  show ?thesis
  proof (cases z)
    case True
    let ?x = "bigint_shl ?u (TICK_ARRAY_BITMAP_SIZE - 1 - o')
                AND (bigint_shl 1 TICK_ARRAY_BITMAP_SIZE - 1)"
    have fx: "?x \<noteq> 0 \<and> i = n - u512LeadingZeros ?x * c"
      using f' True b o(1)
      by (auto simp add: nextInitializedTickArrayInBitmap_def Let_def words c_def
          split: if_splits)
    have mk: "bigint_shl 1 TICK_ARRAY_BITMAP_SIZE - 1 = (2::int) ^ 512 - 1"
      by (simp add: bigint_shl_def TICK_ARRAY_BITMAP_SIZE_def)
    have "(0::int) \<le> 2 ^ 512 - 1" by simp
    then have x0: "0 \<le> ?x" unfolding mk and_nonnegative_int_iff by (rule disjI2)
    have xne: "?x \<noteq> 0" using fx by blast
    have xp: "0 < ?x" using x0 xne by linarith
    define nb where "nb = u512LeadingZeros ?x"
    have lz: "nb \<le> 511" "bit ?x (nat (511 - nb))"
      using leading_zeros_bit [OF xp] by (simp_all add: nb_def)
    have "bit (bigint_shl ?u (TICK_ARRAY_BITMAP_SIZE - 1 - o')) (nat (511 - nb))"
      using lz(2) by (simp only: bit_and_iff)
    from bit_bigint_shl [OF this]
    have sh: "0 \<le> int (nat (511 - nb)) - (TICK_ARRAY_BITMAP_SIZE - 1 - o')"
      "bit ?u (nat (int (nat (511 - nb)) - (TICK_ARRAY_BITMAP_SIZE - 1 - o')))" by simp_all
    have e: "int (nat (511 - nb)) - (TICK_ARRAY_BITMAP_SIZE - 1 - o') = o' + (- nb)"
      using lz(1) by (simp add: TICK_ARRAY_BITMAP_SIZE_def)
    have "checkTickArrayIsInitialized ((q + (- nb)) * c) s (pos, neg)
            = Inr (True, (q + (- nb)) * c)"
      by (rule step) (use sh in \<open>simp_all only: e\<close>)
    moreover have "i = (q + (- nb)) * c" using fx by (simp add: nb_def q algebra_simps)
    ultimately show ?thesis by simp
  next
    case False
    let ?x = "bigint_shr ?u o'"
    have fx: "?x \<noteq> 0 \<and> i = n + u512TrailingZeros ?x * c"
      using f' False b o(1)
      by (auto simp add: nextInitializedTickArrayInBitmap_def Let_def words c_def
          split: if_splits)
    define nb where "nb = u512TrailingZeros ?x"
    have tz: "0 \<le> nb" "bit ?x (nat nb)"
      using trailing_zeros_bit [of ?x] fx by (simp_all add: nb_def)
    have "bit ?u (nat (o' + int (nat nb)))" by (rule bit_bigint_shr [OF tz(2) o(2)])
    then have bu: "bit ?u (nat (o' + nb))" using tz(1) by simp
    have "checkTickArrayIsInitialized ((q + nb) * c) s (pos, neg) = Inr (True, (q + nb) * c)"
      by (rule step) (use bu tz(1) o(2) in simp_all)
    moreover have "i = (q + nb) * c" using fx by (simp add: nb_def q algebra_simps)
    ultimately show ?thesis by simp
  qed
qed

subsection \<open>The scan returns an initialized array or nothing\<close>

lemma parsed_extension_empty: "parsed_extension empty_extension"
  by (simp add: parsed_extension_def empty_extension_def EXTENSION_TICKARRAY_BITMAP_SIZE_def
      u64_words_def list_all_iff)

text \<open>
  Claim C9.  For every inline bitmap, every extension as parsed from its account (fourteen
  segments of eight 64-bit words on either side), every last start index, every positive
  tick spacing and either direction, \<open>nextInitializedTickArrayStartIndex\<close> returns: its
  loop cannot run forever and no exception is thrown.  What it returns is either the start
  index of a tick array whose bit is set, in the inline bitmap or in the extension, by the
  module's own tests, or \<open>null\<close>, and then the scanned index has passed \<open>MIN_TICK\<close> or
  \<open>MAX_TICK\<close>.
\<close>

theorem nextInitializedTickArrayStartIndex_total:
  assumes "0 < s" and "parsed_extension ext"
  shows "\<exists>res l. scan_loop bm ext (getArrayStartIndex t s) s z = Some (Inr (res, l))
           \<and> nextInitializedTickArrayStartIndex bm ext t s z = Some (Inr res)
           \<and> scan_result_ok bm ext s (Inr (res, l))"
proof -
  obtain pos neg where ext: "ext = (pos, neg)" by (cases ext)
  have len: "14 \<le> length pos" "14 \<le> length neg"
    and ws: "\<forall>seg \<in> set pos \<union> set neg. u64_words seg"
    using assms(2)
    by (auto simp add: ext parsed_extension_def EXTENSION_TICKARRAY_BITMAP_SIZE_def list_all_iff)
  define J where "J l1 \<longleftrightarrow> aligned s l1 \<and>
     (let n = (if z then l1 - tickCount s else l1 + tickCount s)
      in n < - maxTickInTickarrayBitmap s \<or> maxTickInTickarrayBitmap s \<le> n)" for l1
  have "\<exists>r. scan_loop bm ext (getArrayStartIndex t s) s z = Some r \<and> scan_result_ok bm ext s r"
  proof (rule scan_loop_rule [OF assms(1), where I = "aligned s" and J = J])
    show "aligned s (getArrayStartIndex t s)" by (rule aligned_start)
  next
    fix l i
    assume "nextInitializedTickArrayStartIndexInBitmap (u1024FromList bm) l s z = (True, i)"
    then show "scan_result_ok bm ext s (Inr (Some i, l))"
      using inline_found_initialized [OF assms(1)] by (simp add: scan_result_ok_def)
  next
    fix l l1
    assume "aligned s l"
      and "nextInitializedTickArrayStartIndexInBitmap (u1024FromList bm) l s z = (False, l1)"
    then show "J l1"
      unfolding J_def using inline_miss_aligned inline_miss [OF assms(1)] by blast
  next
    fix l1 e
    assume "J l1" and "nextInitializedTickArrayFromOneBitmap l1 s z ext = Inl e"
    then show "scan_result_ok bm ext s (Inl e)"
      using ext_no_error [OF assms(1) len, of z l1 e] by (simp add: J_def ext)
  next
    fix l1 i
    assume "J l1" and "nextInitializedTickArrayFromOneBitmap l1 s z ext = Inr (True, i)"
    then show "scan_result_ok bm ext s (Inr (Some i, l1))"
      using ext_found_initialized [OF assms(1) _ ws, of l1 z i]
      by (simp add: J_def ext scan_result_ok_def)
  next
    fix l1 l2
    assume "J l1" and "nextInitializedTickArrayFromOneBitmap l1 s z ext = Inr (False, l2)"
    then show "aligned s l2" unfolding J_def using ext_miss_aligned by blast
  next
    fix l2
    assume "l2 < MIN_TICK \<or> l2 > MAX_TICK"
    then show "scan_result_ok bm ext s (Inr (None, l2))" by (simp add: scan_result_ok_def)
  qed
  then obtain r where r: "scan_loop bm ext (getArrayStartIndex t s) s z = Some r"
    "scan_result_ok bm ext s r" by blast
  then obtain res l where "r = Inr (res, l)"
    by (cases r) (auto simp add: scan_result_ok_def)
  then show ?thesis
    using r by (simp add: nextInitializedTickArrayStartIndex_def)
qed

text \<open>
  The theorem at spacing 1, scanning upwards from tick 0 over empty bitmaps: the scan walks
  through all fourteen segments and returns nothing.
\<close>

theorem nextInitializedTickArrayStartIndex_total_witness:
  "0 < (1::int) \<and> parsed_extension empty_extension
   \<and> (\<exists>res l. scan_loop (replicate 16 0) empty_extension (getArrayStartIndex 0 1) 1 False
                 = Some (Inr (res, l))
        \<and> nextInitializedTickArrayStartIndex (replicate 16 0) empty_extension 0 1 False
            = Some (Inr res)
        \<and> scan_result_ok (replicate 16 0) empty_extension 1 (Inr (res, l)))"
  using nextInitializedTickArrayStartIndex_total
    [of 1 empty_extension "replicate 16 0" 0 False]
    parsed_extension_empty
  by simp

lemma scan_empty_upwards:
  "scan_loop (replicate 16 0) empty_extension 0 1 False = Some (Inr (None, 460740))"
  by code_simp

lemma scan_short_extension_throws:
  "nextInitializedTickArrayStartIndex (replicate 16 0) ([], []) 0 1 False = Some (Inl TypeError)"
  by code_simp



section \<open>The 128-bit codec\<close>

lemma le_bytes_numeral:
  "le_bytes (numeral k) v = of_nat (v mod 256) # le_bytes (pred_numeral k) (v div 256)"
  by (simp only: numeral_eq_Suc [of k] le_bytes.simps)

lemma replicate_numeral:
  "replicate (numeral k) x = x # replicate (pred_numeral k) x"
  by (simp only: numeral_eq_Suc [of k] replicate.simps)

lemma le_bytes_length: "length (le_bytes k v) = k"
  by (induction k arbitrary: v) simp_all

lemma bn_of_le_le_bytes: "v < 256 ^ k \<Longrightarrow> bn_of_le (le_bytes k v) = v"
proof (induction k arbitrary: v)
  case 0
  then show ?case by simp
next
  case (Suc k)
  have "v div 256 < 256 ^ k"
    using Suc.prems by (simp add: less_mult_imp_div_less mult.commute)
  then have "bn_of_le (le_bytes k (v div 256)) = v div 256"
    by (rule Suc.IH)
  moreover have "unat (of_nat (v mod 256) :: byte) = v mod 256"
    by (simp add: unat_of_nat)
  ultimately show ?case by simp
qed

text \<open>
  Claim C4.  For every unsigned 128-bit integer \<open>n\<close> (\<open>0 \<le> n < 2^128\<close>),
  \<open>encodeUInt128\<close> gives sixteen bytes, the low 64-bit word first and either word
  little-endian, and \<open>decodeUInt128\<close> of these bytes, which rebuilds
  \<open>high * 2^64 + low\<close>, is \<open>n\<close> again.
\<close>

theorem uint128_roundtrip:
  assumes "n < 2 ^ 128"
  shows "\<exists>bs. encodeUInt128 n = Inr bs \<and> length bs = 16
           \<and> take 8 bs = le_bytes 8 (n mod 2 ^ 64)
           \<and> drop 8 bs = le_bytes 8 (n div 2 ^ 64)
           \<and> decodeUInt128 bs = bn_of_le (drop 8 bs) * 2 ^ 64 + bn_of_le (take 8 bs)
           \<and> decodeUInt128 bs = n"
proof -
  have lo: "take_bit 64 n < (256::nat) ^ 8"
    by (simp add: take_bit_eq_mod)
  have hi: "drop_bit 64 n < (256::nat) ^ 8"
    using assms by (simp add: drop_bit_eq_div less_mult_imp_div_less)
  have "n = push_bit 64 (drop_bit 64 n) + take_bit 64 n"
    by (simp add: push_bit_eq_mult drop_bit_eq_div take_bit_eq_mod)
  then show ?thesis
    using lo hi
    by (simp add: encodeUInt128_def toArrayLike_le_def decodeUInt128_def buffer_slice_def
        le_bytes_length bn_of_le_le_bytes take_bit_eq_mod drop_bit_eq_div push_bit_eq_mult
        del: le_bytes.simps)
qed

text \<open>The theorem at the values 0, 1, \<open>2^64\<close> and \<open>2^128 - 1\<close>.\<close>

theorem uint128_roundtrip_witness:
  "(0::nat) < 2 ^ 128
   \<and> (\<exists>bs. encodeUInt128 0 = Inr bs \<and> length bs = 16 \<and> decodeUInt128 bs = 0)
   \<and> (1::nat) < 2 ^ 128
   \<and> (\<exists>bs. encodeUInt128 1 = Inr bs \<and> length bs = 16 \<and> decodeUInt128 bs = 1)
   \<and> (2::nat) ^ 64 < 2 ^ 128
   \<and> (\<exists>bs. encodeUInt128 (2 ^ 64) = Inr bs \<and> length bs = 16 \<and> decodeUInt128 bs = 2 ^ 64)
   \<and> (2::nat) ^ 128 - 1 < 2 ^ 128
   \<and> (\<exists>bs. encodeUInt128 (2 ^ 128 - 1) = Inr bs \<and> length bs = 16
          \<and> decodeUInt128 bs = 2 ^ 128 - 1)"
proof -
  have w: "\<exists>bs. encodeUInt128 n = Inr bs \<and> length bs = 16 \<and> decodeUInt128 bs = n"
    if "n < 2 ^ 128" for n
    using uint128_roundtrip [OF that] by blast
  show ?thesis
    using w [of 0] w [of 1] w [of "2 ^ 64"] w [of "2 ^ 128 - 1"] by simp
qed

lemma encodeUInt128_two_pow_64:
  "encodeUInt128 (2 ^ 64) = Inr [0, 0, 0, 0, 0, 0, 0, 0, 1, 0, 0, 0, 0, 0, 0, 0]"
  by (simp add: encodeUInt128_def toArrayLike_le_def le_bytes_numeral take_bit_eq_mod
      drop_bit_eq_div)

lemma encodeUInt128_too_wide: "encodeUInt128 (2 ^ 128) = Inl AssertionError"
  by (simp add: encodeUInt128_def toArrayLike_le_def take_bit_eq_mod drop_bit_eq_div)


section \<open>The payload of the CLMM swap instruction\<close>

lemma discriminator:
  "buffer_from_hex ''2b04ed0b1ac91e62'' = [0x2b, 0x04, 0xed, 0x0b, 0x1a, 0xc9, 0x1e, 0x62]"
  by (simp add: hex_val_def)

lemma packU64_ok:
  "0 \<le> v \<Longrightarrow> v < 2 ^ 53 \<Longrightarrow> packU64 v = Inr (le_bytes 8 (nat \<lfloor>v\<rfloor>))"
proof -
  assume a: "0 \<le> v" "v < 2 ^ 53"
  then have "\<lfloor>v\<rfloor> < 9007199254740992" using floor_less_iff [of v "2 ^ 53"] by simp
  then have "nat \<lfloor>v\<rfloor> < 9007199254740992" by linarith
  then have "nat \<lfloor>v\<rfloor> < (256::nat) ^ 8" by simp
  moreover have "v < 2 ^ 64" using a(2) by (rule less_trans) simp
  ultimately show ?thesis using a
    by (simp add: packU64_def BN_of_number_def toArrayLike_le_def del: le_bytes.simps)
qed

lemma packU64_0: "packU64 0 = Inr (replicate 8 0)"
  by (simp add: packU64_ok le_bytes_numeral replicate_numeral)

text \<open>
  For every amount from 0 to below \<open>2^53\<close>, every direction and every pool-key bundle,
  \<open>makeClmmSwapInstruction\<close> builds instruction data of exactly 41 bytes: the
  discriminator \<open>2b04ed0b1ac91e62\<close>, the whole part of the amount as eight little-endian
  bytes, eight zero bytes (the other-amount threshold, zero whatever the slippage), sixteen
  zero bytes, and a last byte 1 (the is-base-input flag).
\<close>

lemma makeClmmSwapInstruction_data:
  assumes "0 \<le> amount" and "amount < 2 ^ 53"
  shows "\<exists>ins. makeClmmSwapInstruction amount tokenAccountIn tokenAccountOut poolKeys payer action
             = Inr ins
           \<and> data ins = [0x2b, 0x04, 0xed, 0x0b, 0x1a, 0xc9, 0x1e, 0x62]
                 @ le_bytes 8 (nat \<lfloor>amount\<rfloor>) @ replicate 8 0 @ replicate 16 0 @ [1]
           \<and> length (data ins) = 41"
  using assms
  by (simp add: makeClmmSwapInstruction_def Let_def packU64_ok [OF assms] packU64_0
      discriminator le_bytes_length split: prod.splits
      del: le_bytes.simps buffer_from_hex.simps)

text \<open>A purchase with 1,000,000 lamports; and the amount 1.5, which is packed as 1.\<close>

lemma makeClmmSwapInstruction_million:
  "\<exists>ins. makeClmmSwapInstruction 1000000 ''in'' ''out'' sample_pool ''payer'' BUY = Inr ins
     \<and> data ins = [0x2b, 0x04, 0xed, 0x0b, 0x1a, 0xc9, 0x1e, 0x62]
           @ [0x40, 0x42, 0x0f, 0, 0, 0, 0, 0] @ replicate 8 0 @ replicate 16 0 @ [1]
     \<and> length (data ins) = 41"
  using makeClmmSwapInstruction_data [of 1000000 "''in''" "''out''" sample_pool "''payer''" BUY]
  by (simp add: le_bytes_numeral)

lemma makeClmmSwapInstruction_fraction:
  "\<exists>ins. makeClmmSwapInstruction (3 / 2) ''in'' ''out'' sample_pool ''payer'' BUY = Inr ins
     \<and> data ins = [0x2b, 0x04, 0xed, 0x0b, 0x1a, 0xc9, 0x1e, 0x62]
           @ [1, 0, 0, 0, 0, 0, 0, 0] @ replicate 8 0 @ replicate 16 0 @ [1]"
proof -
  have "\<lfloor>3 / 2 :: real\<rfloor> = 1" by (simp add: floor_eq_iff)
  then show ?thesis
    using makeClmmSwapInstruction_data [of "3 / 2" "''in''" "''out''" sample_pool "''payer''" BUY]
    by (auto simp add: le_bytes_numeral)
qed

text \<open>Outside the range that \<open>packU64\<close> states for itself, its check throws.\<close>

lemma makeClmmSwapInstruction_out_of_range:
  "amount < 0 \<or> 2 ^ 64 \<le> amount \<Longrightarrow>
     makeClmmSwapInstruction amount tokenAccountIn tokenAccountOut poolKeys payer action
       = Inl (Error ''Value must be in the range of a u64 (0 to 2^64 - 1).'')"
  by (auto simp add: makeClmmSwapInstruction_def Let_def packU64_def split: prod.splits)

text \<open>
  Inside that range, from \<open>2^53\<close> on, the check lets the amount through and the
  constructor of \<open>BN\<close> fails its assertion.
\<close>

lemma makeClmmSwapInstruction_unsafe_range:
  "2 ^ 53 \<le> amount \<Longrightarrow> amount < 2 ^ 64 \<Longrightarrow>
     makeClmmSwapInstruction amount tokenAccountIn tokenAccountOut poolKeys payer action
       = Inl AssertionError"
proof -
  assume a: "2 ^ 53 \<le> amount" "amount < 2 ^ 64"
  have "(0::real) \<le> 2 ^ 53" by simp
  from this a(1) have "0 \<le> amount" by (rule order_trans)
  with a show ?thesis
    by (simp add: makeClmmSwapInstruction_def Let_def packU64_def BN_of_number_def
        split: prod.splits)
qed

text \<open>
  Claim C6.  The claim has the 41 bytes built for every amount, the amount in eight
  little-endian bytes, and \<open>packU64\<close> announces the range of a u64, 0 to \<open>2^64 - 1\<close>.  At
  the amount \<open>2^53\<close> (9007199254740992 base units, inside that range) no instruction is
  built: the range check passes and \<open>new BN(value)\<close> throws.
\<close>

theorem makeClmmSwapInstruction_unsafe_amount:
  "(0::real) \<le> 2 ^ 53 \<and> (2 ^ 53 :: real) < 2 ^ 64
   \<and> packU64 (2 ^ 53) = Inl AssertionError
   \<and> makeClmmSwapInstruction (2 ^ 53) ''in'' ''out'' sample_pool ''payer'' SELL
       = Inl AssertionError"
  by (simp add: makeClmmSwapInstruction_def Let_def packU64_def BN_of_number_def
      split: prod.splits)


section \<open>Transaction confirmation: the polling loop\<close>

lemma confirmTxn_loop_skip:
  "(\<And>j. j < k \<Longrightarrow> poll (client (p + j)) = None) \<Longrightarrow> r + int k \<le> m \<Longrightarrow>
   confirmTxn_loop poll client m r p = confirmTxn_loop poll client m (r + int k) (p + k)"
proof (induction k arbitrary: r p)
  case 0
  then show ?case by simp
next
  case (Suc k)
  have p0: "poll (client p) = None" using Suc.prems(1) [of 0] by simp
  have lt: "r < m" using Suc.prems(2) by simp
  have step: "confirmTxn_loop poll client m r p = confirmTxn_loop poll client m (r + 1) (Suc p)"
    by (subst confirmTxn_loop.simps) (simp add: p0 lt)
  have "confirmTxn_loop poll client m (r + 1) (Suc p)
          = confirmTxn_loop poll client m (r + 1 + int k) (Suc p + k)"
  proof (rule Suc.IH)
    fix j assume "j < k"
    then show "poll (client (Suc p + j)) = None" using Suc.prems(1) [of "Suc j"] by simp
  next
    show "r + 1 + int k \<le> m" using Suc.prems(2) by simp
  qed
  with step show ?case by (simp add: add.assoc)
qed

text \<open>A terminal poll, reached while the retry counter is below \<open>maxRetries\<close>, ends the loop.\<close>

lemma confirmTxn_loop_terminal:
  assumes "\<And>j. j < k \<Longrightarrow> poll (client j) = None"
    and "poll (client k) = Some b" and "1 + int k < m"
  shows "confirmTxn_loop poll client m 1 0 = (Some b, Suc k)"
proof -
  have "confirmTxn_loop poll client m 1 0 = confirmTxn_loop poll client m (1 + int k) (0 + k)"
    by (rule confirmTxn_loop_skip) (use assms in simp_all)
  also have "\<dots> = (Some b, Suc k)"
    by (subst confirmTxn_loop.simps) (use assms in simp)
  finally show ?thesis .
qed

text \<open>Without a terminal poll the loop makes \<open>maxRetries - 1\<close> polls, the counter starting at 1.\<close>

lemma confirmTxn_loop_exhausted:
  assumes "\<And>j. poll (client j) = None"
  shows "confirmTxn_loop poll client m 1 0 = (None, nat (m - 1))"
proof (cases "1 \<le> m")
  case True
  have "confirmTxn_loop poll client m 1 0
          = confirmTxn_loop poll client m (1 + int (nat (m - 1))) (0 + nat (m - 1))"
    by (rule confirmTxn_loop_skip) (use assms True in simp_all)
  also have "\<dots> = (None, nat (m - 1))"
    by (subst confirmTxn_loop.simps) (use True in simp)
  finally show ?thesis .
next
  case False
  then show ?thesis by (subst confirmTxn_loop.simps) simp
qed

lemma poll_raydium_simps:
  "poll_raydium found_ok = Some True"
  "poll_raydium (found_err e) = Some False"
  "poll_raydium Throws = None"
  "poll_raydium (Returns None) = None"
  by (simp_all add: poll_raydium_def found_ok_def found_err_def)

lemma poll_pumpfun_simps:
  "poll_pumpfun found_ok = Some True"
  "truthy_error e \<Longrightarrow> poll_pumpfun (found_err e) = Some False"
  "\<not> truthy_error e \<Longrightarrow> poll_pumpfun (found_err e) = None"
  "poll_pumpfun Throws = None"
  "poll_pumpfun (Returns None) = None"
  by (simp_all add: poll_pumpfun_def found_ok_def found_err_def)

text \<open>
  Claim C2.  In both copies of \<open>confirmTxn\<close>, with the lookups before it giving "not
  found" or an error of the lookup:
  \<^item> a poll that finds the transaction with a \<open>null\<close> error field returns true at once;
  \<^item> a poll that finds it with an error returns false at once, with no further poll;
  \<^item> when no lookup ever gives a terminal result, the result is \<open>null\<close>, neither true nor
    false, after exactly \<open>maxRetries - 1\<close> polls.
  The poll in question is the \<open>(k+1)\<close>-th, made while the retry counter \<open>k + 1\<close> is below
  \<open>maxRetries\<close>.  An error is what a node reports as one: an object, or the name of the
  error, a string that is not empty.  These are the truthy values of the type, which is
  what the bonding-curve copy tests.
\<close>

theorem confirmTxn_contract:
  "((\<forall>j<k. pending (client j)) \<and> client k = found_ok \<and> int k + 1 < maxRetries
      \<longrightarrow> confirmTxn client maxRetries = (Some True, Suc k)
        \<and> confirmTxn_pumpfun client maxRetries = (Some True, Suc k))
   \<and> ((\<forall>j<k. pending (client j)) \<and> client k = found_err e \<and> int k + 1 < maxRetries
      \<longrightarrow> confirmTxn client maxRetries = (Some False, Suc k)
        \<and> (truthy_error e \<longrightarrow> confirmTxn_pumpfun client maxRetries = (Some False, Suc k)))
   \<and> ((\<forall>j. pending (client j))
      \<longrightarrow> confirmTxn client maxRetries = (None, nat (maxRetries - 1))
        \<and> confirmTxn_pumpfun client maxRetries = (None, nat (maxRetries - 1)))"
proof -
  have pr: "poll_raydium r = None" and pp: "poll_pumpfun r = None" if "pending r" for r
    using that by (auto simp add: pending_def poll_raydium_simps poll_pumpfun_simps)
  have A: "confirmTxn client maxRetries = (Some b, Suc k)"
    if "\<forall>j<k. pending (client j)" "poll_raydium (client k) = Some b" "int k + 1 < maxRetries" for b
    unfolding confirmTxn_def
    by (rule confirmTxn_loop_terminal) (use that pr in auto)
  have B: "confirmTxn_pumpfun client maxRetries = (Some b, Suc k)"
    if "\<forall>j<k. pending (client j)" "poll_pumpfun (client k) = Some b" "int k + 1 < maxRetries" for b
    unfolding confirmTxn_pumpfun_def
    by (rule confirmTxn_loop_terminal) (use that pp in auto)
  have C: "confirmTxn client maxRetries = (None, nat (maxRetries - 1))"
    "confirmTxn_pumpfun client maxRetries = (None, nat (maxRetries - 1))"
    if "\<forall>j. pending (client j)"
    unfolding confirmTxn_def confirmTxn_pumpfun_def
    by (rule confirmTxn_loop_exhausted, use that pr pp in auto)+
  show ?thesis
    using A B C by (auto simp add: poll_raydium_simps poll_pumpfun_simps)
qed

text \<open>
  The theorem with the default of 20 retries: a transaction found at the third poll,
  without and with an error, and a transaction never found (19 polls).
\<close>

theorem confirmTxn_contract_witness:
  "confirmTxn (\<lambda>j. if j < 2 then Returns None else found_ok) 20 = (Some True, 3)
   \<and> confirmTxn_pumpfun (\<lambda>j. if j < 2 then Returns None else found_ok) 20 = (Some True, 3)
   \<and> confirmTxn (\<lambda>j. if j < 2 then Throws else found_err (ErrObject ''InstructionError'')) 20
       = (Some False, 3)
   \<and> confirmTxn_pumpfun
         (\<lambda>j. if j < 2 then Throws else found_err (ErrObject ''InstructionError'')) 20
       = (Some False, 3)
   \<and> confirmTxn (\<lambda>j. Returns None) 20 = (None, 19)
   \<and> confirmTxn_pumpfun (\<lambda>j. Returns None) 20 = (None, 19)"
  using
    confirmTxn_contract [of 2 "\<lambda>j. if j < 2 then Returns None else found_ok" 20]
    confirmTxn_contract [of 2
      "\<lambda>j. if j < 2 then Throws else found_err (ErrObject ''InstructionError'')" 20
      "ErrObject ''InstructionError''"]
    confirmTxn_contract [of 0 "\<lambda>j. Returns None" 20]
  by (simp add: pending_def)

text \<open>
  The two copies differ only outside these errors.  The type of the error admits the empty
  string, which no node reports; the AMM copy returns false for it, and the bonding-curve
  copy polls again, as for a transaction that was not found.
\<close>

lemma confirmTxn_empty_error:
  "confirmTxn (\<lambda>k. found_err (ErrString [])) 20 = (Some False, 1)"
  using confirmTxn_loop_terminal [of 0 poll_raydium "\<lambda>k. found_err (ErrString [])" False 20]
  by (simp add: confirmTxn_def poll_raydium_simps)

lemma confirmTxn_pumpfun_empty_error:
  "confirmTxn_pumpfun (\<lambda>k. found_err (ErrString [])) 20 = (None, 19)
   \<and> confirmTxn_pumpfun (\<lambda>k. found_err (ErrString [])) 20 \<noteq> (Some False, 1)"
proof -
  have "confirmTxn_loop poll_pumpfun (\<lambda>k. found_err (ErrString [])) 20 1 0
          = (None, nat (20 - 1))"
    by (rule confirmTxn_loop_exhausted) (simp add: poll_pumpfun_simps)
  then show ?thesis by (simp add: confirmTxn_pumpfun_def)
qed


section \<open>The orchestrator: budget, rebuys and the tracked wallets\<close>

lemma say_simps [simp]:
  "buyList (say e st) = buyList st" "spent (say e st) = spent st"
  "calls (say e st) = calls st" "console (say e st) = console st @ [e]"
  by (simp_all add: say_def)

lemma invoke_simps [simp]:
  "buyList (invoke c st) = buyList st" "spent (invoke c st) = spent st"
  "calls (invoke c st) = calls st @ [c]" "console (invoke c st) = console st"
  by (simp_all add: invoke_def)

text \<open>
  Once the spend has reached the budget it stays there: a skipped message changes only the
  log, so the rest of the feed is skipped as well.
\<close>

lemma on_messages_over_budget:
  "maxSolSpend cfg \<le> spent st \<Longrightarrow>
     \<exists>st'. on_messages cfg env messages st = Some st'
       \<and> calls st' = calls st \<and> buyList st' = buyList st \<and> spent st' = spent st"
proof (induction messages arbitrary: st)
  case Nil
  then show ?case by simp
next
  case (Cons message messages)
  let ?st = "say (AlreadySpent (spent st) (maxSolSpend cfg)) st"
  have step: "on_message cfg env st message = Some ?st"
    using Cons.prems by (simp add: on_message_def)
  have "maxSolSpend cfg \<le> spent ?st" using Cons.prems by simp
  from Cons.IH [OF this] show ?case by (simp add: step)
qed

text \<open>
  Claim C7.  Whenever the cumulative spend is at or above \<open>MAX_SOL_SPEND\<close> when a message
  arrives, the handler logs the skip and returns before it filters or dispatches: the
  session is the one before with the log line added, so no trading operation is called
  and neither the buy list nor the spend changes.  The same then holds for every message
  that follows: a feed handled from such a session on returns, and calls nothing.
\<close>

theorem on_message_over_budget:
  assumes "maxSolSpend cfg \<le> spent st"
  shows "(\<exists>st'. on_message cfg env st message = Some st'
           \<and> st' = say (AlreadySpent (spent st) (maxSolSpend cfg)) st
           \<and> calls st' = calls st \<and> buyList st' = buyList st \<and> spent st' = spent st
           \<and> console st' = console st @ [AlreadySpent (spent st) (maxSolSpend cfg)])
    \<and> (\<exists>st'. on_messages cfg env messages st = Some st'
           \<and> calls st' = calls st \<and> buyList st' = buyList st \<and> spent st' = spent st)"
  using assms on_messages_over_budget [OF assms] by (simp add: on_message_def)

text \<open>
  The theorem for a wallet's buy of a bonding-curve token that arrives at the budget, and
  for two of them.
\<close>

theorem on_message_over_budget_witness:
  "maxSolSpend track_all \<le> spent (init_session\<lparr>spent := 1\<rparr>)
   \<and> (\<exists>st'. on_message track_all (always RTrue) (init_session\<lparr>spent := 1\<rparr>) pump_buy_message
             = Some st'
         \<and> calls st' = [] \<and> console st' = [AlreadySpent 1 1])
   \<and> (\<exists>st'. on_messages track_all (always RTrue) [pump_buy_message, pump_buy_message]
               (init_session\<lparr>spent := 1\<rparr>) = Some st'
         \<and> calls st' = [])"
  using on_message_over_budget
    [of track_all "init_session\<lparr>spent := 1\<rparr>" "always RTrue" pump_buy_message
      "[pump_buy_message, pump_buy_message]"]
  by (auto simp add: track_all_def init_session_def simp del: on_messages.simps)


subsection \<open>What the patterns read from the sample messages\<close>

lemma starts_with_Nil [simp]: "starts_with s [] = True"
  by (cases s) simp_all

lemma js_includes_empty [simp]: "js_includes s [] = True"
  by (induction s) simp_all

lemma extract_raydium_buy_message:
  "extractTransactionDetails raydium_buy_message =
     \<lparr>transaction_type = Some ''buy'', trader_level = None, token_amount = None,
      maker_address = Some ''W1'', price_sol = None, price_usd = None,
      total_sol = None, total_usd = None, created_at = None,
      token_address = Some ''A'', pair_address = None,
      token_name = Some ''T'', token_code = None,
      protocol = Some ''Raydium V4''\<rparr>"
  by (simp add: extractTransactionDetails_def raydium_buy_message_def quoted_prefix_def
      number_prefix_def dq_def line_terminator_def)

lemma extract_pump_buy_message:
  "extractTransactionDetails pump_buy_message =
     \<lparr>transaction_type = Some ''buy'', trader_level = None, token_amount = None,
      maker_address = Some ''W2'', price_sol = None, price_usd = None,
      total_sol = None, total_usd = None, created_at = None,
      token_address = Some ''A'', pair_address = None,
      token_name = Some ''T'', token_code = None,
      protocol = Some ''Pump V1''\<rparr>"
  by (simp add: extractTransactionDetails_def pump_buy_message_def quoted_prefix_def
      number_prefix_def dq_def line_terminator_def)

subsection \<open>No second buy of an address\<close>

lemma buys_of_append [simp]: "buys_of a (cs @ ds) = buys_of a cs + buys_of a ds"
  by (simp add: buys_of_def)

lemma buys_of_buy_call [simp]:
  "buys_of a [buy_call dex b x s] = (if b = a then 1 else 0)"
  by (simp add: buys_of_def buy_call_def)

text \<open>With rebuys off, a listed address ends \<open>buyToken\<close> at the head of its first round.\<close>

lemma buyToken_loop_listed:
  assumes "\<not> allowRebuy cfg" "address \<in> set (buyList st)"
  shows "buyToken_loop cfg env dex name address solAmount slippage attempts st
           = say (AlreadyBought dex name attempts) st"
  using assms by (subst buyToken_loop.simps) simp

lemma buyToken_loop_capped:
  assumes "\<not> allowRebuy cfg" "address \<notin> set (buyList st)" "attempts > maxBuyAttempts cfg"
  shows "buyToken_loop cfg env dex name address solAmount slippage attempts st
           = say (AlreadyAttempted dex name attempts) st"
  using assms by (subst buyToken_loop.simps) simp

text \<open>
  With rebuys off, an address that is not listed is listed first and bought once: whatever
  the purchase gives, the next round finds the address in the list and stops.
\<close>

lemma buyToken_loop_fresh:
  assumes "\<not> allowRebuy cfg" "address \<notin> set (buyList st)" "attempts \<le> maxBuyAttempts cfg"
  shows "\<exists>st'. buyToken_loop cfg env dex name address solAmount slippage attempts st = st'
           \<and> calls st' = calls st @ [buy_call dex address solAmount slippage]
           \<and> set (buyList st') = insert address (set (buyList st))"
proof -
  let ?st1 = "say (TryingToBuy dex name (attempts + 1)) st"
  let ?st2 = "?st1\<lparr>buyList := buyList ?st1 @ [address]\<rparr>"
  let ?st3 = "invoke (buy_call dex address solAmount slippage) ?st2"
  have unf: "buyToken_loop cfg env dex name address solAmount slippage attempts st =
    (if returned env (calls ?st3) = RThrow
     then buyToken_loop cfg env dex name address solAmount slippage (attempts + 1)
            (say (FailedToBuy dex name (attempts + 1)) ?st3)
     else if returned env (calls ?st3) = RTrue
     then say (Bought dex name (attempts + 1)) (?st3\<lparr>spent := number_sum env (spent ?st3) solAmount\<rparr>)
     else buyToken_loop cfg env dex name address solAmount slippage (attempts + 1) ?st3)"
    using assms by (subst buyToken_loop.simps) (simp add: Let_def buy_call_def)
  show ?thesis
    unfolding unf using assms(1) by (simp add: buyToken_loop_listed)
qed

lemma buyToken_once:
  assumes "\<not> allowRebuy cfg" "once st"
  shows "once (buyToken cfg env dex name address solAmount slippage st)"
proof (cases "address \<in> set (buyList st)")
  case True
  then show ?thesis using assms
    by (simp add: buyToken_def buyToken_loop_listed once_def)
next
  case nl: False
  show ?thesis
  proof (cases "0 > maxBuyAttempts cfg")
    case True
    then show ?thesis using assms nl
      by (simp add: buyToken_def buyToken_loop_capped once_def)
  next
    case False
    then have "0 \<le> maxBuyAttempts cfg" by simp
    from buyToken_loop_fresh [OF assms(1) nl this]
    obtain st' where st': "buyToken cfg env dex name address solAmount slippage st = st'"
      "calls st' = calls st @ [buy_call dex address solAmount slippage]"
      "set (buyList st') = insert address (set (buyList st))"
      unfolding buyToken_def by blast
    have "buys_of address (calls st) = 0" using assms(2) nl by (simp add: once_def)
    then show ?thesis using assms(2) st' by (auto simp add: once_def)
  qed
qed

lemma buyTokens_once:
  "\<not> allowRebuy cfg \<Longrightarrow> once st \<Longrightarrow> once (buyTokens cfg env sigs st)"
proof (induction sigs arbitrary: st)
  case Nil
  then show ?case by simp
next
  case (Cons sg sigs)
  obtain dex name address solAmount slippage where sg: "sg = (dex, name, address, solAmount, slippage)"
    by (cases sg) auto
  show ?case
    unfolding sg buyTokens.simps
    by (rule Cons.IH [OF Cons.prems(1) buyToken_once [OF Cons.prems]])
qed

lemma once_init: "once init_session"
  by (simp add: once_def init_session_def buys_of_def)

text \<open>
  The same for the handler.  A sale calls no buy operation and leaves the buy list alone,
  however many rounds it takes; so every message keeps the invariant, and so does a feed.
\<close>

lemma once_say: "once (say e st) = once st"
  by (simp add: once_def)

lemma once_sell:
  "once (invoke (if dex = ''ra'' then SellRaydium a p s else SellPumpFun a p s) st) = once st"
  by (simp add: once_def buys_of_def)

lemma sellToken_loop_once:
  assumes "sellToken_loop env dex name address slippage attempts st = Some st'"
  shows "once st \<longrightarrow> once st'"
proof (rule sellToken_loop.raw_induct
    [where P = "\<lambda>env dex name address slippage attempts st st'. once st \<longrightarrow> once st'",
      OF _ assms])
  fix loop :: "environment \<Rightarrow> string \<Rightarrow> string \<Rightarrow> string \<Rightarrow> int \<Rightarrow> int \<Rightarrow> session
     \<Rightarrow> session option"
  fix env dex name address slippage attempts st st'
  let ?st = "invoke (if dex = ''ra'' then SellRaydium address 100 slippage
                     else SellPumpFun address 100 slippage)
               (say (TryingToSell dex name attempts) st)"
  assume IH: "\<And>env dex name address slippage attempts st y.
     loop env dex name address slippage attempts st = Some y \<Longrightarrow> once st \<longrightarrow> once y"
  assume body: "(let st = say (TryingToSell dex name attempts) st;
          st = invoke (if dex = ''ra'' then SellRaydium address 100 slippage
                       else SellPumpFun address 100 slippage) st;
          sold = returned env (calls st)
      in if sold = RThrow
         then loop env dex name address slippage (attempts + 1)
                (say (FailedToSell dex name attempts) st)
         else if sold = RUndefined \<or> sold = RTrue
         then Some st
         else loop env dex name address slippage (attempts + 1) st) = Some st'"
  show "once st \<longrightarrow> once st'"
  proof
    assume "once st"
    then have o: "once ?st" by (simp only: once_sell once_say)
    show "once st'"
    proof (cases "returned env (calls ?st) = RThrow")
      case True
      with body have "loop env dex name address slippage (attempts + 1)
          (say (FailedToSell dex name attempts) ?st) = Some st'"
        by (simp add: Let_def)
      from IH [OF this] o show ?thesis by (simp only: once_say)
    next
      case nt: False
      show ?thesis
      proof (cases "returned env (calls ?st) = RUndefined \<or> returned env (calls ?st) = RTrue")
        case True
        with body nt have "st' = ?st" by (simp add: Let_def)
        then show ?thesis using o by simp
      next
        case False
        with body nt have "loop env dex name address slippage (attempts + 1) ?st = Some st'"
          by (simp add: Let_def)
        from IH [OF this] o show ?thesis by simp
      qed
    qed
  qed
qed

lemma on_message_once:
  assumes "\<not> allowRebuy cfg" "once st" "on_message cfg env st message = Some st'"
  shows "once st'"
  using assms
  by (auto simp add: on_message_def run_action_def sellToken_def buyToken_once once_say
      split: if_splits option.splits action.splits
      dest: sellToken_loop_once)

lemma on_messages_once:
  "\<not> allowRebuy cfg \<Longrightarrow> once st \<Longrightarrow> on_messages cfg env messages st = Some st'
     \<Longrightarrow> once st'"
proof (induction messages arbitrary: st)
  case Nil
  then show ?case by simp
next
  case (Cons message messages)
  from Cons.prems(3) obtain st1 where st1: "on_message cfg env st message = Some st1"
    "on_messages cfg env messages st1 = Some st'"
    by (auto split: option.splits)
  from on_message_once [OF Cons.prems(1,2) st1(1)] have "once st1" .
  from Cons.IH [OF Cons.prems(1) this st1(2)] show ?case .
qed

text \<open>Two buy messages for one token, the purchase failing: one call, and two refusals.\<close>

lemma pump_buy_twice:
  "on_messages track_all (always RFalse) [pump_buy_message, pump_buy_message] init_session
     = Some \<lparr>buyList = [''A''], spent = 0, calls = [BuyPumpFun ''A'' (1 / 100) 5],
             console = [TryingToBuy ''pf'' ''T'' 1, AlreadyBought ''pf'' ''T'' 1,
                        AlreadyBought ''pf'' ''T'' 0]\<rparr>"
  by (simp add: on_message_def filterMessages_def track_all_def init_session_def
      extract_pump_buy_message or_empty_def protocolMap_def run_action_def buyToken_def
      buyToken_loop.simps say_def invoke_def always_def)

text \<open>
  A negative attempt cap stops \<open>buyToken\<close> at the head of its first round, before the
  address is listed and before the trade: nothing is ever bought.
\<close>

lemma buyToken_negative_cap:
  assumes "\<not> allowRebuy cfg" "maxBuyAttempts cfg < 0"
  shows "calls (buyToken cfg env dex name address solAmount slippage st) = calls st
    \<and> buyList (buyToken cfg env dex name address solAmount slippage st) = buyList st"
proof (cases "address \<in> set (buyList st)")
  case True
  then show ?thesis using assms(1) by (simp add: buyToken_def buyToken_loop_listed)
next
  case False
  then show ?thesis using assms by (simp add: buyToken_def buyToken_loop_capped)
qed

lemma buyTokens_negative_cap:
  "\<not> allowRebuy cfg \<Longrightarrow> maxBuyAttempts cfg < 0 \<Longrightarrow>
     calls (buyTokens cfg env sigs st) = calls st"
proof (induction sigs arbitrary: st)
  case Nil
  then show ?case by simp
next
  case (Cons sg sigs)
  obtain dex name address solAmount slippage where sg: "sg = (dex, name, address, solAmount, slippage)"
    by (cases sg) auto
  show ?case
    unfolding sg buyTokens.simps
    using Cons.IH [OF Cons.prems] buyToken_negative_cap [OF Cons.prems] by simp
qed

text \<open>
  Claim C8, as the code has it.  With \<open>ALLOW_REBUY=false\<close>, over any sequence of buy signals
  handled one after the other from the start of the session, the underlying buy operation
  is called at most once for any address; and so it is over any feed of messages that the
  handler takes one after the other, sales included, when every handler returns.  A
  \<open>buyToken\<close> for a listed address calls nothing.  What else holds depends on the attempt
  cap:
  \<^item> with \<open>MAX_BUY_ATTEMPTS\<close> at least 0 (0 by default), \<open>buyToken\<close> lists the address
    before it trades, so the address is listed afterwards also when the attempt failed
    (what the trade gives is for the environment to choose), and two buy signals for one
    address make exactly one call;
  \<^item> with a negative \<open>MAX_BUY_ATTEMPTS\<close>, \<open>buyToken\<close> neither lists the address nor
    trades, and no sequence of buy signals makes any call.
\<close>

theorem buyToken_no_rebuy:
  assumes "\<not> allowRebuy cfg"
  shows "buys_of a (calls (buyTokens cfg env sigs init_session)) \<le> 1
    \<and> (on_messages cfg env messages init_session = Some st'
         \<longrightarrow> buys_of a (calls st') \<le> 1)
    \<and> (a \<in> set (buyList st)
         \<longrightarrow> calls (buyToken cfg env dex name a solAmount slippage st) = calls st)
    \<and> (0 \<le> maxBuyAttempts cfg
         \<longrightarrow> a \<in> set (buyList (buyToken cfg env dex name a solAmount slippage st)))
    \<and> (0 \<le> maxBuyAttempts cfg
         \<longrightarrow> buys_of a (calls (buyTokens cfg env
                [(dex, name, a, solAmount, slippage), (dex', name', a, solAmount', slippage')]
                init_session)) = 1)
    \<and> (maxBuyAttempts cfg < 0
         \<longrightarrow> calls (buyToken cfg env dex name a solAmount slippage st) = calls st
           \<and> buyList (buyToken cfg env dex name a solAmount slippage st) = buyList st)
    \<and> (maxBuyAttempts cfg < 0
         \<longrightarrow> calls (buyTokens cfg env sigs init_session) = [])"
proof (intro conjI impI)
  show "buys_of a (calls (buyTokens cfg env sigs init_session)) \<le> 1"
    using buyTokens_once [OF assms once_init] by (simp add: once_def)
next
  assume "on_messages cfg env messages init_session = Some st'"
  from on_messages_once [OF assms once_init this]
  show "buys_of a (calls st') \<le> 1" by (simp add: once_def)
next
  assume "a \<in> set (buyList st)"
  then show "calls (buyToken cfg env dex name a solAmount slippage st) = calls st"
    using assms by (simp add: buyToken_def buyToken_loop_listed)
next
  assume cap: "0 \<le> maxBuyAttempts cfg"
  show "a \<in> set (buyList (buyToken cfg env dex name a solAmount slippage st))"
  proof (cases "a \<in> set (buyList st)")
    case True
    then show ?thesis using assms by (simp add: buyToken_def buyToken_loop_listed)
  next
    case False
    from buyToken_loop_fresh [OF assms False cap] show ?thesis
      unfolding buyToken_def by auto
  qed
next
  assume cap: "0 \<le> maxBuyAttempts cfg"
  have nl: "a \<notin> set (buyList init_session)" by (simp add: init_session_def)
  from buyToken_loop_fresh [OF assms nl cap]
  obtain st' where st': "buyToken cfg env dex name a solAmount slippage init_session = st'"
    "calls st' = calls init_session @ [buy_call dex a solAmount slippage]"
    "set (buyList st') = insert a (set (buyList init_session))"
    unfolding buyToken_def by blast
  have "a \<in> set (buyList st')" using st'(3) by simp
  then have "calls (buyToken cfg env dex' name' a solAmount' slippage' st') = calls st'"
    using assms by (simp add: buyToken_def buyToken_loop_listed)
  then show "buys_of a (calls (buyTokens cfg env
                [(dex, name, a, solAmount, slippage), (dex', name', a, solAmount', slippage')]
                init_session)) = 1"
    using st' by (simp add: init_session_def)
next
  assume "maxBuyAttempts cfg < 0"
  from buyToken_negative_cap [OF assms this]
  show "calls (buyToken cfg env dex name a solAmount slippage st) = calls st" by simp
next
  assume "maxBuyAttempts cfg < 0"
  from buyToken_negative_cap [OF assms this]
  show "buyList (buyToken cfg env dex name a solAmount slippage st) = buyList st" by simp
next
  assume "maxBuyAttempts cfg < 0"
  from buyTokens_negative_cap [OF assms this]
  show "calls (buyTokens cfg env sigs init_session) = []" by (simp add: init_session_def)
qed

text \<open>
  The theorem with the default cap 0, for two signals for the address \<open>A\<close> and one for \<open>B\<close>
  in between and for two buy messages for \<open>A\<close>, every purchase failing; and with the cap
  \<open>-2\<close>, for the same three signals.
\<close>

theorem buyToken_no_rebuy_witness:
  "\<not> allowRebuy track_all \<and> 0 \<le> maxBuyAttempts track_all
   \<and> buys_of ''A'' (calls (buyTokens track_all (always RFalse)
        [(''pf'', ''T'', ''A'', 1 / 100, 5), (''pf'', ''U'', ''B'', 1 / 100, 5),
         (''pf'', ''T'', ''A'', 1 / 100, 5)] init_session)) \<le> 1
   \<and> on_messages track_all (always RFalse) [pump_buy_message, pump_buy_message] init_session
       = Some \<lparr>buyList = [''A''], spent = 0, calls = [BuyPumpFun ''A'' (1 / 100) 5],
               console = [TryingToBuy ''pf'' ''T'' 1, AlreadyBought ''pf'' ''T'' 1,
                          AlreadyBought ''pf'' ''T'' 0]\<rparr>
   \<and> buys_of ''A'' [BuyPumpFun ''A'' (1 / 100) 5] \<le> 1
   \<and> buys_of ''A'' (calls (buyTokens track_all (always RFalse)
        [(''pf'', ''T'', ''A'', 1 / 100, 5), (''pf'', ''T'', ''A'', 1 / 100, 5)]
        init_session)) = 1
   \<and> ''A'' \<in> set (buyList (buyToken track_all (always RFalse) ''pf'' ''T'' ''A'' (1 / 100) 5
        init_session))
   \<and> \<not> allowRebuy (track_all\<lparr>maxBuyAttempts := - 2\<rparr>)
   \<and> maxBuyAttempts (track_all\<lparr>maxBuyAttempts := - 2\<rparr>) < 0
   \<and> calls (buyTokens (track_all\<lparr>maxBuyAttempts := - 2\<rparr>) (always RFalse)
        [(''pf'', ''T'', ''A'', 1 / 100, 5), (''pf'', ''U'', ''B'', 1 / 100, 5),
         (''pf'', ''T'', ''A'', 1 / 100, 5)] init_session) = []"
  using
    buyToken_no_rebuy [where cfg = track_all and a = "''A''" and env = "always RFalse"
      and sigs = "[(''pf'', ''T'', ''A'', 1 / 100, 5), (''pf'', ''U'', ''B'', 1 / 100, 5),
        (''pf'', ''T'', ''A'', 1 / 100, 5)]"
      and messages = "[pump_buy_message, pump_buy_message]"
      and st' = "\<lparr>buyList = [''A''], spent = 0, calls = [BuyPumpFun ''A'' (1 / 100) 5],
               console = [TryingToBuy ''pf'' ''T'' 1, AlreadyBought ''pf'' ''T'' 1,
                          AlreadyBought ''pf'' ''T'' 0]\<rparr>"
      and st = init_session and dex = "''pf''" and name = "''T''" and solAmount = "1 / 100"
      and slippage = 5 and dex' = "''pf''" and name' = "''T''" and solAmount' = "1 / 100"
      and slippage' = 5]
    buyToken_no_rebuy [where cfg = "track_all\<lparr>maxBuyAttempts := - 2\<rparr>" and a = "''A''"
      and env = "always RFalse"
      and sigs = "[(''pf'', ''T'', ''A'', 1 / 100, 5), (''pf'', ''U'', ''B'', 1 / 100, 5),
        (''pf'', ''T'', ''A'', 1 / 100, 5)]"]
    pump_buy_twice
  by (simp add: track_all_def del: on_messages.simps buyTokens.simps)

text \<open>
  Claim C8 as stated has exactly one buy call for two buy signals for one address.  With
  \<open>MAX_BUY_ATTEMPTS=-1\<close> the cap is exceeded before the first attempt: the two signals make
  no call, and the address is never listed.
\<close>

theorem buyToken_negative_cap_two_signals:
  "\<not> allowRebuy (track_all\<lparr>maxBuyAttempts := - 1\<rparr>)
   \<and> buyTokens (track_all\<lparr>maxBuyAttempts := - 1\<rparr>) (always RTrue)
        [(''pf'', ''T'', ''A'', 1 / 100, 5), (''pf'', ''T'', ''A'', 1 / 100, 5)] init_session
       = \<lparr>buyList = [], spent = 0, calls = [],
          console = [AlreadyAttempted ''pf'' ''T'' 0, AlreadyAttempted ''pf'' ''T'' 0]\<rparr>
   \<and> buys_of ''A'' (calls (buyTokens (track_all\<lparr>maxBuyAttempts := - 1\<rparr>) (always RTrue)
        [(''pf'', ''T'', ''A'', 1 / 100, 5), (''pf'', ''T'', ''A'', 1 / 100, 5)] init_session))
       = 0
   \<and> buys_of ''A'' (calls (buyTokens (track_all\<lparr>maxBuyAttempts := - 1\<rparr>) (always RTrue)
        [(''pf'', ''T'', ''A'', 1 / 100, 5), (''pf'', ''T'', ''A'', 1 / 100, 5)] init_session))
       \<noteq> 1"
  by (simp add: track_all_def init_session_def buyToken_def buyToken_loop.simps say_def
      buys_of_def)

subsection \<open>An empty list of tracked wallets\<close>

text \<open>
  Claim C10, as the code has it.  With \<open>TRACK_WALLETS\<close> unset or empty, \<open>filterMessages\<close>
  lets every message through, and the later test of the maker address against the empty
  string holds for every address.  So, while the spend is below the budget, every message
  that carries a maker address (not empty) and whose protocol and transaction type have an
  action in the handler's table (buy and sell for \<open>Pump V1\<close>, sell for \<open>Raydium V4\<close>) is
  dispatched to that action, whoever the maker is: the empty list tracks every wallet.
\<close>

theorem empty_trackWallets_tracks_every_wallet:
  assumes "trackWallets cfg = []"
  shows "filterMessages cfg message = Some (extractTransactionDetails message)
    \<and> js_includes maker (trackWallets cfg)
    \<and> (spent st < maxSolSpend cfg
         \<and> maker_address (extractTransactionDetails message) = Some maker \<and> maker \<noteq> []
         \<and> protocolMap (or_empty (protocol (extractTransactionDetails message)))
              (or_empty (transaction_type (extractTransactionDetails message))) = Some act
       \<longrightarrow> on_message cfg env st message
             = run_action cfg env (extractTransactionDetails message) act st)"
  using assms by (simp add: filterMessages_def on_message_def or_empty_def)

text \<open>
  The theorem for a buy of a bonding-curve token by a wallet \<open>W2\<close> that nobody configured:
  the handler buys the token.
\<close>

theorem empty_trackWallets_tracks_every_wallet_witness:
  "trackWallets track_all = []
   \<and> spent init_session < maxSolSpend track_all
   \<and> maker_address (extractTransactionDetails pump_buy_message) = Some ''W2''
   \<and> on_message track_all (always RTrue) init_session pump_buy_message
       = Some (buyToken track_all (always RTrue) ''pf'' ''T'' ''A'' (1 / 100) 5 init_session)"
  using empty_trackWallets_tracks_every_wallet
    [of track_all pump_buy_message "''W2''" init_session PumpBuy "always RTrue"]
  by (simp add: track_all_def init_session_def extract_pump_buy_message or_empty_def
      protocolMap_def run_action_def)

lemma pump_buy_message_buys:
  "calls (buyToken track_all (always RTrue) ''pf'' ''T'' ''A'' (1 / 100) 5 init_session)
     = [BuyPumpFun ''A'' (1 / 100) 5]"
proof -
  have "\<not> allowRebuy track_all" "''A'' \<notin> set (buyList init_session)"
    "0 \<le> maxBuyAttempts track_all"
    by (simp_all add: track_all_def init_session_def)
  from buyToken_loop_fresh [OF this, of "always RTrue" "''pf''" "''T''" "1 / 100" 5]
  show ?thesis by (simp add: buyToken_def buy_call_def init_session_def)
qed

text \<open>
  Claim C10 as stated has every message with a recognized protocol and transaction type
  dispatched.  \<open>Raydium V4\<close> is a recognized protocol and \<open>buy\<close> a transaction type, but
  the table has no buy for it: such a message is logged as not supported, and no trading
  operation is called.
\<close>

theorem on_message_raydium_buy_not_dispatched:
  "on_message track_all (always RTrue) init_session raydium_buy_message
     = Some (say (NotSupported (Some ''buy'') (Some ''Raydium V4'') (Some ''T'') (Some ''A''))
               init_session)
   \<and> calls (say (NotSupported (Some ''buy'') (Some ''Raydium V4'') (Some ''T'') (Some ''A''))
               init_session) = []"
  by (simp add: on_message_def filterMessages_def track_all_def extract_raydium_buy_message
      init_session_def or_empty_def protocolMap_def)

text \<open>So it is for every buy on \<open>Raydium V4\<close> that gets as far as the table.\<close>

lemma on_message_raydium_buy_unsupported:
  assumes "spent st < maxSolSpend cfg"
    and "filterMessages cfg message = Some d"
    and "maker_address d = Some maker" "maker \<noteq> []" "js_includes maker (trackWallets cfg)"
    and "protocol d = Some ''Raydium V4''" "transaction_type d = Some ''buy''"
  shows "on_message cfg env st message
           = Some (say (NotSupported (Some ''buy'') (Some ''Raydium V4'')
                          (token_name d) (token_address d)) st)
    \<and> calls (say (NotSupported (Some ''buy'') (Some ''Raydium V4'')
                     (token_name d) (token_address d)) st) = calls st"
  using assms by (simp add: on_message_def or_empty_def protocolMap_def)

text \<open>
  The other conditions of the dispatch are needed as well: a message without a maker
  address is dropped, and with \<open>MAX_SOL_SPEND\<close> unset as well the budget is 0 and every
  message is skipped.
\<close>

lemma on_message_no_maker_not_dispatched:
  "on_message track_all (always RTrue) init_session anonymous_buy_message = Some init_session"
  by (simp add: on_message_def filterMessages_def track_all_def init_session_def or_empty_def
      extractTransactionDetails_def anonymous_buy_message_def quoted_prefix_def
      number_prefix_def dq_def line_terminator_def)

lemma on_message_no_budget_not_dispatched:
  "on_message (track_all\<lparr>maxSolSpend := 0\<rparr>) (always RTrue) init_session pump_buy_message
     = Some (say (AlreadySpent 0 0) init_session)"
  by (simp add: on_message_def track_all_def init_session_def)

end
